theory Spec2Isabelle
  imports Complex_Main "HOL-Library.Sublist"
begin

section \<open>Python values used by \<^verbatim>\<open>filter_veg_fe_hd.py\<close>\<close>

text \<open>
  A Python \<^verbatim>\<open>str\<close> is a sequence of Unicode code points, so it is modelled as a list of
  natural numbers; \<open>length\<close> then counts what Python's \<^verbatim>\<open>len\<close> counts. ASCII literals
  of the source are written with \<open>ascii\<close>.
\<close>

type_synonym ustr = "nat list"

definition ascii :: "string \<Rightarrow> ustr" where
  "ascii s = map of_char s"

text \<open>
  The frame is read with \<^verbatim>\<open>dtype=str\<close>: a cell is a string, or the missing value
  (\<^verbatim>\<open>NaN\<close>, and \<^verbatim>\<open>None\<close> for the default of \<^verbatim>\<open>row.get\<close>), which is not a
  \<^verbatim>\<open>str\<close> and for which \<^verbatim>\<open>pd.isna\<close> holds.
\<close>

datatype cell = Str ustr | Null

type_synonym row = "ustr \<rightharpoonup> cell"

record frame =
  columns :: "ustr list"
  rows :: "row list"

datatype exn =
  ValueError | TypeError | OverflowError | FileNotFoundError | ParserError | PermissionError

text \<open>
  What the script takes from the Python runtime and its Unicode tables is a parameter of
  the model, so that every theorem holds for whatever these library functions compute:
  \<^item> \<open>re_word c\<close>: the character \<open>c\<close> is matched by \<^verbatim>\<open>\w\<close> (decides \<^verbatim>\<open>\b\<close>);
  \<^item> \<open>re_ci p c\<close>: the literal \<open>p\<close> of a pattern compiled with \<^verbatim>\<open>re.IGNORECASE\<close>
    matches the character \<open>c\<close>;
  \<^item> \<open>str_lower\<close>: \<^verbatim>\<open>str.lower\<close>;
  \<^item> \<open>isspace c\<close>: the character \<open>c\<close> is removed by \<^verbatim>\<open>str.strip()\<close>;
  \<^item> \<open>py_float\<close>: \<^verbatim>\<open>float(s)\<close> on a string, \<open>Inl\<close> when it raises.
\<close>

record 'f pylib =
  re_word :: "nat \<Rightarrow> bool"
  re_ci :: "nat \<Rightarrow> nat \<Rightarrow> bool"
  str_lower :: "ustr \<Rightarrow> ustr"
  isspace :: "nat \<Rightarrow> bool"
  py_float :: "ustr \<Rightarrow> exn + 'f"

definition row_get :: "row \<Rightarrow> ustr \<Rightarrow> cell \<Rightarrow> cell" where
  \<comment> \<open>\<^verbatim>\<open>row.get(col, default)\<close>\<close>
  "row_get r c d = (case r c of None \<Rightarrow> d | Some v \<Rightarrow> v)"

definition strip :: "'f pylib \<Rightarrow> ustr \<Rightarrow> ustr" where
  \<comment> \<open>\<^verbatim>\<open>s.strip()\<close>\<close>
  "strip lib s = rev (dropWhile (isspace lib) (rev (dropWhile (isspace lib) s)))"

definition replace_commas :: "ustr \<Rightarrow> ustr" where
  \<comment> \<open>\<^verbatim>\<open>s.replace(",", "")\<close>\<close>
  "replace_commas s = filter (\<lambda>c. c \<noteq> 44) s"

fun startswith :: "ustr \<Rightarrow> ustr \<Rightarrow> bool" where
  "startswith t [] = True"
| "startswith [] (k # ks) = False"
| "startswith (c # cs) (k # ks) = (c = k \<and> startswith cs ks)"

fun py_in :: "ustr \<Rightarrow> ustr \<Rightarrow> bool" where
  \<comment> \<open>\<^verbatim>\<open>kw in val\<close>: literal substring containment\<close>
  "py_in kw [] = (kw = [])"
| "py_in kw (c # cs) = (startswith (c # cs) kw \<or> py_in kw cs)"

section \<open>Helper to safely convert lat/long to float or None\<close>

definition try_except :: "exn + 'a \<Rightarrow> (exn \<Rightarrow> exn + 'a) \<Rightarrow> exn + 'a" where
  \<comment> \<open>\<^verbatim>\<open>try: body except Exception: handler\<close>\<close>
  "try_except body handler = (case body of Inl e \<Rightarrow> handler e | Inr v \<Rightarrow> Inr v)"

fun to_float_or_none :: "'f pylib \<Rightarrow> cell \<Rightarrow> exn + 'f option" where
  "to_float_or_none lib Null = Inr None"
| "to_float_or_none lib (Str val) =
     try_except (map_sum id Some (py_float lib val))
       (\<lambda>_. try_except (map_sum id Some (py_float lib (strip lib (replace_commas val))))
          (\<lambda>_. Inr None))"

section \<open>Keyword vocabularies and the English pattern\<close>

definition eng_keywords :: "ustr list" where
  "eng_keywords = map ascii
     [''vegetarian'', ''vegan'', ''veggie'', ''vegan-friendly'', ''vegetarian-friendly'',
      ''plant-based'', ''plant based'', ''pure veg'', ''pure-veg'', ''veg'']"

definition cn_keywords :: "ustr list" where
  \<comment> \<open>the ten Chinese keywords, as code points\<close>
  "cn_keywords =
     [[0x7D20, 0x98DF], [0x7D14, 0x7D20], [0x5168, 0x7D20], [0x9F4B], [0x7D20, 0x83DC],
      [0x7D20, 0x98DF, 0x9928], [0x7D20, 0x98DF, 0x5E97], [0x7D20, 0x9910],
      [0x7D20, 0x9F4B], [0x7D20, 0x5BB6]]"

text \<open>
  \<^verbatim>\<open>eng_pattern\<close> is \<^verbatim>\<open>\b(k1|...|k10)\b\<close> with \<^verbatim>\<open>re.IGNORECASE\<close>, every keyword escaped
  and so a literal. The engine backtracks: at a position where \<^verbatim>\<open>\b\<close> holds it tries the
  alternatives in the order listed, and the first one that matches literally and is
  followed by \<^verbatim>\<open>\b\<close> is the match.
\<close>

definition is_word :: "'f pylib \<Rightarrow> nat option \<Rightarrow> bool" where
  "is_word lib c = (case c of None \<Rightarrow> False | Some x \<Rightarrow> re_word lib x)"

definition at_boundary :: "'f pylib \<Rightarrow> nat option \<Rightarrow> nat option \<Rightarrow> bool" where
  \<comment> \<open>\<^verbatim>\<open>\b\<close> between the previous and the next character (\<open>None\<close> at either end of the text)\<close>
  "at_boundary lib prev nxt = (is_word lib prev \<noteq> is_word lib nxt)"

definition first_char :: "ustr \<Rightarrow> nat option" where
  "first_char t = (case t of [] \<Rightarrow> None | c # _ \<Rightarrow> Some c)"

definition last_char :: "nat option \<Rightarrow> ustr \<Rightarrow> nat option" where
  "last_char prev m = (if m = [] then prev else Some (last m))"

fun lit_match :: "'f pylib \<Rightarrow> ustr \<Rightarrow> ustr \<Rightarrow> (ustr \<times> ustr) option" where
  \<comment> \<open>the literal \<open>k\<close> against the start of the text: the matched text and the rest\<close>
  "lit_match lib [] t = Some ([], t)"
| "lit_match lib (p # ps) [] = None"
| "lit_match lib (p # ps) (c # cs) =
     (if re_ci lib p c
      then (case lit_match lib ps cs of None \<Rightarrow> None | Some (m, r) \<Rightarrow> Some (c # m, r))
      else None)"

fun try_alts :: "'f pylib \<Rightarrow> nat option \<Rightarrow> ustr list \<Rightarrow> ustr \<Rightarrow> (ustr \<times> ustr) option" where
  "try_alts lib prev [] t = None"
| "try_alts lib prev (k # ks) t =
     (case lit_match lib k t of
        None \<Rightarrow> try_alts lib prev ks t
      | Some (m, r) \<Rightarrow>
          if at_boundary lib (last_char prev m) (first_char r) then Some (m, r)
          else try_alts lib prev ks t)"

definition eng_pattern_match :: "'f pylib \<Rightarrow> nat option \<Rightarrow> ustr \<Rightarrow> (ustr \<times> ustr) option" where
  \<comment> \<open>\<^verbatim>\<open>eng_pattern\<close> matched at the current position, \<open>prev\<close> the character before it\<close>
  "eng_pattern_match lib prev t =
     (if at_boundary lib prev (first_char t) then try_alts lib prev eng_keywords t else None)"

lemma lit_match_splits:
  "lit_match lib k t = Some (m, r) \<Longrightarrow> t = m @ r \<and> length m = length k"
proof (induction lib k t arbitrary: m r rule: lit_match.induct)
  case (1 lib t)
  then show ?case by simp
next
  case (2 lib p ps)
  then show ?case by simp
next
  case (3 lib p ps c cs)
  then show ?case by (auto split: if_splits option.splits)
qed

lemma try_alts_consumes:
  "try_alts lib prev ks t = Some (m, r) \<Longrightarrow> \<forall>k \<in> set ks. k \<noteq> [] \<Longrightarrow>
     t = m @ r \<and> m \<noteq> []"
proof (induction ks)
  case Nil
  then show ?case by simp
next
  case (Cons k ks)
  show ?case
  proof (cases "lit_match lib k t")
    case None
    with Cons show ?thesis by simp
  next
    case (Some mr)
    obtain m' r' where mr: "mr = (m', r')" by (cases mr)
    from Some mr lit_match_splits [of lib k t m' r']
    have split: "t = m' @ r'" "length m' = length k" by simp_all
    from Cons.prems(2) have "k \<noteq> []" by simp
    with split have "m' \<noteq> []" by auto
    with Cons Some mr split show ?thesis by (auto split: if_splits)
  qed
qed

lemma eng_keywords_nonempty: "\<forall>k \<in> set eng_keywords. k \<noteq> []"
  by (simp add: eng_keywords_def ascii_def)

lemma eng_pattern_match_shorter:
  "eng_pattern_match lib prev t = Some (m, r) \<Longrightarrow> t = m @ r \<and> m \<noteq> []"
proof -
  assume "eng_pattern_match lib prev t = Some (m, r)"
  then have "try_alts lib prev eng_keywords t = Some (m, r)"
    by (simp add: eng_pattern_match_def split: if_splits)
  then show ?thesis
    by (rule try_alts_consumes) (rule eng_keywords_nonempty)
qed

text \<open>
  \<^verbatim>\<open>eng_pattern.findall(val)\<close>: the matches from left to right, without overlap; the search
  resumes where a match ended, and one character further where there was none. With one
  group in the pattern, the list holds the text of the group, here the whole match.
\<close>

function findall :: "'f pylib \<Rightarrow> nat option \<Rightarrow> ustr \<Rightarrow> ustr list" where
  "findall lib prev t =
     (case eng_pattern_match lib prev t of
        Some (m, r) \<Rightarrow> m # findall lib (last_char prev m) r
      | None \<Rightarrow> (case t of [] \<Rightarrow> [] | c # cs \<Rightarrow> findall lib (Some c) cs))"
  by pat_completeness auto
termination
proof (relation "measure (\<lambda>(lib, prev, t). length t)")
  show "wf (measure (\<lambda>(lib, prev, t). length t))" by simp
next
  fix lib :: "'f pylib" and prev t x2 x y
  assume "eng_pattern_match lib prev t = Some x2" and "(x, y) = x2"
  then have "eng_pattern_match lib prev t = Some (x, y)" by simp
  from eng_pattern_match_shorter [OF this]
  show "((lib, last_char prev x, y), lib, prev, t) \<in> measure (\<lambda>(lib, prev, t). length t)"
    by (cases x) auto
next
  fix lib :: "'f pylib" and prev and t :: ustr and x21 x22
  assume "t = x21 # x22"
  then show "((lib, Some x21, x22), lib, prev, t) \<in> measure (\<lambda>(lib, prev, t). length t)"
    by simp
qed

declare findall.simps [simp del]

section \<open>Main processing function\<close>

text \<open>
  \<^verbatim>\<open>col_map\<close>: the candidate column names of every output field, in priority order.
\<close>

datatype logical_field =
  F_Name_EN | F_Name_TC | F_Address_EN | F_Address_TC
  | F_District_EN | F_District_TC | F_Latitude | F_Longitude

fun col_map :: "logical_field \<Rightarrow> ustr list" where
  "col_map F_Name_EN =
     map ascii [''NSEARCH03_EN'', ''NAME_EN'', ''NSEARCH03'', ''ESTABLISHMENT_NAME_EN'']"
| "col_map F_Name_TC = map ascii [''NSEARCH03_TC'', ''NAME_TC'', ''NSEARCH03_TC'']"
| "col_map F_Address_EN = map ascii [''ADDRESS_EN'', ''ADDRESS'']"
| "col_map F_Address_TC = map ascii [''ADDRESS_TC'']"
| "col_map F_District_EN = map ascii [''SEARCH01_EN'']"
| "col_map F_District_TC = map ascii [''SEARCH01_TC'']"
| "col_map F_Latitude = map ascii [''LATITUDE'']"
| "col_map F_Longitude = map ascii [''LONGITUDE'']"

definition search_candidates :: "ustr list" where
  "search_candidates =
     col_map F_Name_EN @ col_map F_Name_TC
     @ map ascii [''ADDRESS_EN'', ''ADDRESS_TC'', ''DATASET_EN'', ''DATASET_TC'',
                  ''NAME_EN'', ''NAME_TC'']"

definition add_search_column :: "frame \<Rightarrow> ustr list \<Rightarrow> ustr \<Rightarrow> ustr list" where
  "add_search_column df acc c =
     (if c \<in> set (columns df) \<and> c \<notin> set acc then acc @ [c] else acc)"

definition search_columns :: "frame \<Rightarrow> ustr list" where
  \<comment> \<open>the fallback is every column: with \<^verbatim>\<open>dtype=str\<close> all of them have dtype object\<close>
  "search_columns df =
     (let found = foldl (add_search_column df) [] search_candidates
      in if found = [] then columns df else found)"

subsection \<open>The keyword matcher of one row\<close>

definition add_en :: "'f pylib \<Rightarrow> ustr list \<Rightarrow> ustr \<Rightarrow> ustr list" where
  "add_en lib en_matches m =
     (let token = str_lower lib m
      in if token \<notin> set en_matches then en_matches @ [token] else en_matches)"

definition add_cn :: "ustr \<Rightarrow> ustr list \<Rightarrow> ustr \<Rightarrow> ustr list" where
  "add_cn val cn_matches kw =
     (if py_in kw val \<and> kw \<notin> set cn_matches then cn_matches @ [kw] else cn_matches)"

definition scan_column ::
  "'f pylib \<Rightarrow> row \<Rightarrow> ustr list \<times> ustr list \<Rightarrow> ustr \<Rightarrow> ustr list \<times> ustr list" where
  \<comment> \<open>the body of \<^verbatim>\<open>for col in search_columns\<close>; a value that is not a string: \<^verbatim>\<open>continue\<close>\<close>
  "scan_column lib r acc col =
     (case row_get r col (Str []) of
        Null \<Rightarrow> acc
      | Str val \<Rightarrow>
          (foldl (add_en lib) (fst acc) (findall lib None val),
           foldl (add_cn val) (snd acc) cn_keywords))"

definition row_matches :: "'f pylib \<Rightarrow> ustr list \<Rightarrow> row \<Rightarrow> ustr list \<times> ustr list" where
  \<comment> \<open>\<^verbatim>\<open>(en_matches, cn_matches)\<close> when the loop over the columns has ended\<close>
  "row_matches lib cols r = foldl (scan_column lib r) ([], []) cols"

subsection \<open>The output record of one row\<close>

record 'f out_record =
  Name_EN :: ustr
  Name_TC :: ustr
  Address_EN :: ustr
  Address_TC :: ustr
  District_EN :: ustr
  District_TC :: ustr
  Latitude :: "'f option"
  Longitude :: "'f option"
  Keyword_EN :: "ustr list"
  Keyword_TC :: "ustr list"

fun first_existing :: "'f pylib \<Rightarrow> frame \<Rightarrow> row \<Rightarrow> ustr list \<Rightarrow> ustr" where
  "first_existing lib df r [] = []"
| "first_existing lib df r (c # cs) =
     (if c \<in> set (columns df)
      then (case row_get r c Null of
              Str v \<Rightarrow> if strip lib v \<noteq> [] then strip lib v else first_existing lib df r cs
            | Null \<Rightarrow> first_existing lib df r cs)
      else first_existing lib df r cs)"

fun resolve_numeric :: "'f pylib \<Rightarrow> frame \<Rightarrow> row \<Rightarrow> ustr list \<Rightarrow> exn + 'f option" where
  \<comment> \<open>the loops that set \<^verbatim>\<open>lat_val\<close> and \<^verbatim>\<open>lon_val\<close>: the first candidate present, then \<^verbatim>\<open>break\<close>\<close>
  "resolve_numeric lib df r [] = Inr None"
| "resolve_numeric lib df r (c # cs) =
     (if c \<in> set (columns df) then to_float_or_none lib (row_get r c Null)
      else resolve_numeric lib df r cs)"

definition build_record ::
  "'f pylib \<Rightarrow> frame \<Rightarrow> row \<Rightarrow> ustr list \<Rightarrow> ustr list \<Rightarrow> exn + 'f out_record" where
  "build_record lib df r en_matches cn_matches =
     (case resolve_numeric lib df r (col_map F_Latitude) of
        Inl e \<Rightarrow> Inl e
      | Inr lat_val \<Rightarrow>
          (case resolve_numeric lib df r (col_map F_Longitude) of
             Inl e \<Rightarrow> Inl e
           | Inr lon_val \<Rightarrow>
               Inr \<lparr>Name_EN = first_existing lib df r (col_map F_Name_EN),
                    Name_TC = first_existing lib df r (col_map F_Name_TC),
                    Address_EN = first_existing lib df r (col_map F_Address_EN),
                    Address_TC = first_existing lib df r (col_map F_Address_TC),
                    District_EN = first_existing lib df r (col_map F_District_EN),
                    District_TC = first_existing lib df r (col_map F_District_TC),
                    Latitude = lat_val, Longitude = lon_val,
                    Keyword_EN = en_matches, Keyword_TC = cn_matches\<rparr>))"

subsection \<open>The loop over the rows\<close>

definition process_row ::
  "'f pylib \<Rightarrow> frame \<Rightarrow> ustr list \<Rightarrow> int \<Rightarrow> 'f out_record list \<Rightarrow> row
     \<Rightarrow> exn + 'f out_record list" where
  \<comment> \<open>the body of \<^verbatim>\<open>for _, row in df.iterrows()\<close>, from the list \<^verbatim>\<open>matched\<close> to the new one\<close>
  "process_row lib df cols min_matches matched r =
     (let (en_matches, cn_matches) = row_matches lib cols r
      in if int (length en_matches) + int (length cn_matches) \<ge> min_matches
         then (case build_record lib df r en_matches cn_matches of
                 Inl e \<Rightarrow> Inl e
               | Inr out \<Rightarrow> Inr (matched @ [out]))
         else Inr matched)"

fun process_rows ::
  "'f pylib \<Rightarrow> frame \<Rightarrow> ustr list \<Rightarrow> int \<Rightarrow> 'f out_record list \<Rightarrow> row list
     \<Rightarrow> exn + 'f out_record list" where
  "process_rows lib df cols min_matches matched [] = Inr matched"
| "process_rows lib df cols min_matches matched (r # rs) =
     (case process_row lib df cols min_matches matched r of
        Inl e \<Rightarrow> Inl e
      | Inr matched' \<Rightarrow> process_rows lib df cols min_matches matched' rs)"

definition select_matched :: "'f pylib \<Rightarrow> frame \<Rightarrow> int \<Rightarrow> exn + 'f out_record list" where
  \<comment> \<open>the list \<^verbatim>\<open>matched\<close> of \<^verbatim>\<open>filter_and_select\<close> when the loop over the rows has ended\<close>
  "select_matched lib df min_matches =
     process_rows lib df (search_columns df) min_matches [] (rows df)"

subsection \<open>The threshold and the record of a row, as the specification words them\<close>

definition qualifies :: "'f pylib \<Rightarrow> ustr list \<Rightarrow> int \<Rightarrow> row \<Rightarrow> bool" where
  \<comment> \<open>the number of English matches plus the number of Chinese matches reaches \<open>min_matches\<close>\<close>
  "qualifies lib cols min_matches r =
     (min_matches \<le> int (length (fst (row_matches lib cols r)))
                     + int (length (snd (row_matches lib cols r))))"

definition row_record :: "'f pylib \<Rightarrow> frame \<Rightarrow> ustr list \<Rightarrow> row \<Rightarrow> exn + 'f out_record" where
  \<comment> \<open>the Output Record of a row: its fields resolved, with the matches of the row\<close>
  "row_record lib df cols r =
     build_record lib df r (fst (row_matches lib cols r)) (snd (row_matches lib cols r))"

definition populated :: "'f pylib \<Rightarrow> frame \<Rightarrow> row \<Rightarrow> ustr \<Rightarrow> bool" where
  \<comment> \<open>the candidate is a column of the dataset and its value in the row is a string that
      is not empty and not only whitespace\<close>
  "populated lib df r c =
     (c \<in> set (columns df)
      \<and> (case r c of Some (Str v) \<Rightarrow> strip lib v \<noteq> [] | _ \<Rightarrow> False))"

subsection \<open>The keyword sequences, as the specification words them\<close>

text \<open>
  The values that are scanned are the strings held by the searchable columns, in the
  order of the columns. Scanning a value meets the English keywords in the order of their
  matches in the text, lowercased, and the Chinese keywords it contains in the order of
  the vocabulary. \<open>first_seen\<close> keeps the first occurrence of every entry of a sequence,
  and \<open>first_index\<close> is the position at which an entry is first met.
\<close>

definition scanned_values :: "ustr list \<Rightarrow> row \<Rightarrow> ustr list" where
  "scanned_values cols r =
     concat (map (\<lambda>c. case row_get r c (Str []) of Str v \<Rightarrow> [v] | Null \<Rightarrow> []) cols)"

definition en_found :: "'f pylib \<Rightarrow> ustr \<Rightarrow> ustr list" where
  \<comment> \<open>the English keywords met while a value is scanned\<close>
  "en_found lib v = map (str_lower lib) (findall lib None v)"

definition cn_found :: "ustr \<Rightarrow> ustr list" where
  \<comment> \<open>the Chinese keywords met while a value is scanned\<close>
  "cn_found v = filter (\<lambda>kw. py_in kw v) cn_keywords"

definition en_stream :: "'f pylib \<Rightarrow> ustr list \<Rightarrow> row \<Rightarrow> ustr list" where
  "en_stream lib cols r = concat (map (en_found lib) (scanned_values cols r))"

definition cn_stream :: "ustr list \<Rightarrow> row \<Rightarrow> ustr list" where
  "cn_stream cols r = concat (map cn_found (scanned_values cols r))"

definition first_index :: "'a \<Rightarrow> 'a list \<Rightarrow> nat" where
  "first_index x xs = length (takeWhile (\<lambda>y. y \<noteq> x) xs)"

fun first_seen :: "'a list \<Rightarrow> 'a list" where
  "first_seen [] = []"
| "first_seen (x # xs) = x # filter (\<lambda>y. y \<noteq> x) (first_seen xs)"

definition append_new :: "'a list \<Rightarrow> 'a \<Rightarrow> 'a list" where
  "append_new acc x = (if x \<in> set acc then acc else acc @ [x])"

subsection \<open>Reading the input and writing the output\<close>

text \<open>
  The file system holds the contents of the files that can be read and tells which
  paths can be opened for writing. \<^verbatim>\<open>pd.read_csv\<close> raises when the input file is not
  there or does not parse; \<^verbatim>\<open>open(output_path, "w")\<close> raises when the path cannot be
  written, and the file system is then as it was. \<^verbatim>\<open>pd.read_csv\<close> and \<^verbatim>\<open>json.dump\<close> are
  parameters: \<open>read_csv\<close> parses the content of a file into a frame or raises, and
  \<open>json_dump\<close> serialises the list \<^verbatim>\<open>matched\<close>. The function returns the triple of the
  source and the file system after the run.
\<close>

record ('p, 'c) filesystem =
  files :: "'p \<rightharpoonup> 'c"
  writable :: "'p \<Rightarrow> bool"

record ('f, 'c) pyio =
  read_csv :: "'c \<Rightarrow> exn + frame"
  json_dump :: "'f out_record list \<Rightarrow> 'c"

definition filter_and_select ::
  "'f pylib \<Rightarrow> ('f, 'c) pyio \<Rightarrow> 'p \<Rightarrow> 'p \<Rightarrow> int \<Rightarrow> ('p, 'c) filesystem
     \<Rightarrow> (exn + nat \<times> nat \<times> 'p) \<times> ('p, 'c) filesystem" where
  "filter_and_select lib io input_path output_path min_matches fs =
     (case files fs input_path of
        None \<Rightarrow> (Inl FileNotFoundError, fs)
      | Some content \<Rightarrow>
          (case read_csv io content of
             Inl e \<Rightarrow> (Inl e, fs)
           | Inr df \<Rightarrow>
               (case select_matched lib df min_matches of
                  Inl e \<Rightarrow> (Inl e, fs)
                | Inr matched \<Rightarrow>
                    if writable fs output_path
                    then (Inr (length (rows df), length matched, output_path),
                          fs\<lparr>files := (files fs)(output_path \<mapsto> json_dump io matched)\<rparr>)
                    else (Inl PermissionError, fs))))"

section \<open>A library instance for ASCII text\<close>

text \<open>
  An instance of the library parameters that computes what CPython computes on ASCII
  characters and on the ideographs of the Chinese keywords, and \<^verbatim>\<open>float\<close> on strings of
  ASCII digits. The model is evaluated with it on concrete rows.
\<close>

definition ascii_lower :: "nat \<Rightarrow> nat" where
  "ascii_lower c = (if 65 \<le> c \<and> c \<le> 90 then c + 32 else c)"

definition ascii_word :: "nat \<Rightarrow> bool" where
  "ascii_word c =
     (48 \<le> c \<and> c \<le> 57 \<or> 65 \<le> c \<and> c \<le> 90 \<or> c = 95 \<or> 97 \<le> c \<and> c \<le> 122
      \<or> 0x4E00 \<le> c \<and> c \<le> 0x9FA5)"

definition ascii_space :: "nat \<Rightarrow> bool" where
  "ascii_space c = (9 \<le> c \<and> c \<le> 13 \<or> 28 \<le> c \<and> c \<le> 32)"

fun digits_value :: "nat \<Rightarrow> ustr \<Rightarrow> nat option" where
  "digits_value acc [] = Some acc"
| "digits_value acc (c # cs) =
     (if 48 \<le> c \<and> c \<le> 57 then digits_value (10 * acc + (c - 48)) cs else None)"

definition ascii_float :: "ustr \<Rightarrow> exn + real" where
  "ascii_float s =
     (if s = [] then Inl ValueError
      else (case digits_value 0 s of None \<Rightarrow> Inl ValueError | Some n \<Rightarrow> Inr (real n)))"

definition ascii_lib :: "real pylib" where
  "ascii_lib =
     \<lparr>re_word = ascii_word,
      re_ci = (\<lambda>p c. ascii_lower c = ascii_lower p),
      str_lower = map ascii_lower,
      isspace = ascii_space,
      py_float = ascii_float\<rparr>"

definition sample_columns :: "ustr list" where
  "sample_columns = map ascii [''NAME_EN'', ''NAME_TC'', ''ADDRESS_EN'', ''LATITUDE'']"

definition sample_row :: "string \<Rightarrow> ustr \<Rightarrow> string \<Rightarrow> string \<Rightarrow> row" where
  \<comment> \<open>a row of a frame with the columns \<open>sample_columns\<close>; an empty argument is a missing value\<close>
  "sample_row name_en name_tc address_en latitude =
     map_of
       [(ascii ''NAME_EN'', if name_en = [] then Null else Str (ascii name_en)),
        (ascii ''NAME_TC'', if name_tc = [] then Null else Str name_tc),
        (ascii ''ADDRESS_EN'', if address_en = [] then Null else Str (ascii address_en)),
        (ascii ''LATITUDE'', if latitude = [] then Null else Str (ascii latitude))]"

definition sample_frame :: frame where
  "sample_frame =
     \<lparr>columns = sample_columns,
      rows = [sample_row ''Green Vegetarian Restaurant'' [] ''1 Main Street'' ''22,302'',
              sample_row [] [0x7D20, 0x98DF, 0x9928] ''2 Vegan Road'' ''N/A'',
              sample_row ''Noodle Bar'' [] [] []]\<rparr>"

definition missing_name_frame :: frame where
  \<comment> \<open>one row, with a Chinese name and no other value\<close>
  "missing_name_frame =
     \<lparr>columns = sample_columns, rows = [sample_row [] [0x7D20, 0x98DF] [] []]\<rparr>"

definition repeated_keyword_row :: row where
  "repeated_keyword_row = sample_row ''2 Vegan Road'' [0x7D20, 0x98DF, 0x9928] ''2 Vegan Road'' []"

definition repeated_keyword_frame :: frame where
  "repeated_keyword_frame = \<lparr>columns = sample_columns, rows = [repeated_keyword_row]\<rparr>"

definition two_keyword_row :: row where
  "two_keyword_row = sample_row ''Green Vegetarian Restaurant'' [] ''2 Vegan Road'' []"

definition two_keyword_frame :: frame where
  "two_keyword_frame = \<lparr>columns = sample_columns, rows = [two_keyword_row]\<rparr>"

definition green_row :: row where
  "green_row = sample_row ''Green Vegetarian Restaurant'' [] ''1 Main Street'' ''22,302''"

definition sample_json_io :: "(real, frame + real out_record list) pyio" where
  "sample_json_io =
     \<lparr>read_csv = (\<lambda>content. case content of Inl df \<Rightarrow> Inr df | Inr _ \<Rightarrow> Inl ParserError),
      json_dump = Inr\<rparr>"

definition fresh_fs :: "(string, frame + real out_record list) filesystem" where
  "fresh_fs = \<lparr>files = [''in.csv'' \<mapsto> Inl sample_frame], writable = (\<lambda>p. True)\<rparr>"

definition used_fs :: "(string, frame + real out_record list) filesystem" where
  "used_fs =
     \<lparr>files = [''in.csv'' \<mapsto> Inl sample_frame, ''out.json'' \<mapsto> Inr [],
               ''notes.txt'' \<mapsto> Inr []],
      writable = (\<lambda>p. p \<noteq> ''notes.txt'')\<rparr>"

definition ascii_conformant :: "'f pylib \<Rightarrow> bool" where
  \<comment> \<open>the library computes on ASCII characters what CPython computes\<close>
  "ascii_conformant lib =
     ((\<forall>c < 128. re_word lib c = ascii_word c)
      \<and> (\<forall>p < 128. \<forall>c < 128. re_ci lib p c = (ascii_lower c = ascii_lower p))
      \<and> (\<forall>s. (\<forall>c \<in> set s. c < 128) \<longrightarrow> str_lower lib s = map ascii_lower s))"

section \<open>The conversion and the record never raise\<close>

lemma to_float_or_none_Inr: "\<exists>v. to_float_or_none lib c = Inr v"
  by (cases c) (auto simp: try_except_def split: sum.splits)

lemma resolve_numeric_Inr: "\<exists>v. resolve_numeric lib df r cs = Inr v"
  by (induction cs) (simp_all add: to_float_or_none_Inr)

lemma build_record_Inr: "\<exists>out. build_record lib df r en cn = Inr out"
proof -
  obtain lat where lat: "resolve_numeric lib df r (col_map F_Latitude) = Inr lat"
    using resolve_numeric_Inr by blast
  obtain lon where lon: "resolve_numeric lib df r (col_map F_Longitude) = Inr lon"
    using resolve_numeric_Inr by blast
  show ?thesis unfolding build_record_def lat lon by simp
qed

lemma build_record_keywords:
  "build_record lib df r en cn = Inr out \<Longrightarrow> Keyword_EN out = en \<and> Keyword_TC out = cn"
  unfolding build_record_def by (auto split: sum.splits)

section \<open>The loop over the rows keeps the rows that reach the threshold\<close>

lemma process_row_eq:
  "process_row lib df cols m matched r =
     (if qualifies lib cols m r
      then map_sum id (\<lambda>out. matched @ [out]) (row_record lib df cols r)
      else Inr matched)"
  by (auto simp: process_row_def qualifies_def row_record_def split: prod.splits sum.splits)

lemma process_rows_eq:
  "\<exists>outs. process_rows lib df cols m matched rs = Inr (matched @ outs)
     \<and> map Inr outs = map (row_record lib df cols) (filter (qualifies lib cols m) rs)"
proof (induction rs arbitrary: matched)
  case Nil
  then show ?case by simp
next
  case (Cons r rs)
  show ?case
  proof (cases "qualifies lib cols m r")
    case False
    with Cons [of matched] show ?thesis by (simp add: process_row_eq)
  next
    case True
    obtain out where out: "row_record lib df cols r = Inr out"
      unfolding row_record_def using build_record_Inr by blast
    from Cons [of "matched @ [out]"] obtain outs where
      outs: "process_rows lib df cols m (matched @ [out]) rs = Inr ((matched @ [out]) @ outs)"
        "map Inr outs = map (row_record lib df cols) (filter (qualifies lib cols m) rs)"
      by blast
    have "process_rows lib df cols m matched (r # rs) = Inr (matched @ (out # outs))"
      using True out outs(1) by (simp add: process_row_eq)
    moreover have "map Inr (out # outs)
        = map (row_record lib df cols) (filter (qualifies lib cols m) (r # rs))"
      using True out outs(2) by simp
    ultimately show ?thesis by blast
  qed
qed

lemma select_matched_eq:
  "\<exists>matched. select_matched lib df m = Inr matched
     \<and> map Inr matched
       = map (row_record lib df (search_columns df))
           (filter (qualifies lib (search_columns df) m) (rows df))"
  using process_rows_eq [of lib df "search_columns df" m "[]" "rows df"]
  by (simp add: select_matched_def)

text \<open>
  Claim C1. For every input row, an Output Record is appended to the result list if and
  only if the number of distinct English matches plus the number of distinct Chinese
  matches of the row is at least \<open>min_matches\<close>: the loop body appends the record of
  the row exactly when the row qualifies, and the list \<^verbatim>\<open>matched\<close> is, in the order of
  the rows, the records of the rows that qualify.
\<close>

theorem record_appended_iff_threshold:
  "(\<exists>out. row_record lib df cols r = Inr out
      \<and> process_row lib df cols min_matches matched r
          = Inr (if min_matches \<le> int (length (fst (row_matches lib cols r)))
                                  + int (length (snd (row_matches lib cols r)))
                 then matched @ [out] else matched))
   \<and> (\<exists>result. select_matched lib df min_matches = Inr result
        \<and> map Inr result
          = map (row_record lib df (search_columns df))
              (filter (qualifies lib (search_columns df) min_matches) (rows df)))"
proof
  obtain out where out: "row_record lib df cols r = Inr out"
    unfolding row_record_def using build_record_Inr by blast
  then have "process_row lib df cols min_matches matched r
      = Inr (if min_matches \<le> int (length (fst (row_matches lib cols r)))
                              + int (length (snd (row_matches lib cols r)))
             then matched @ [out] else matched)"
    by (simp add: process_row_eq qualifies_def)
  with out show "\<exists>out. row_record lib df cols r = Inr out
      \<and> process_row lib df cols min_matches matched r
          = Inr (if min_matches \<le> int (length (fst (row_matches lib cols r)))
                                  + int (length (snd (row_matches lib cols r)))
                 then matched @ [out] else matched)"
    by blast
next
  show "\<exists>result. select_matched lib df min_matches = Inr result
        \<and> map Inr result
          = map (row_record lib df (search_columns df))
              (filter (qualifies lib (search_columns df) min_matches) (rows df))"
    by (rule select_matched_eq)
qed

section \<open>Raising the threshold only removes records\<close>

lemma filter_subseq_weaken:
  "(\<And>x. P x \<Longrightarrow> Q x) \<Longrightarrow> subseq (filter P xs) (filter Q xs)"
proof -
  assume imp: "\<And>x. P x \<Longrightarrow> Q x"
  have "filter P xs = filter P (filter Q xs)"
    using imp by (auto intro: filter_cong)
  then show ?thesis by (metis subseq_filter_left)
qed

lemma map_Inr_eq_subseq:
  fixes o1 o2 :: "'a list" and f :: "'b \<Rightarrow> 'c + 'a"
  assumes "map Inr o1 = map f xs" and "map Inr o2 = map f ys" and "subseq ys xs"
  shows "subseq o2 o1"
proof -
  have "map projr (map f xs) = map projr (map (Inr :: 'a \<Rightarrow> 'c + 'a) o1)"
    by (simp only: assms(1))
  then have xs: "map (projr \<circ> f) xs = o1" by (simp add: comp_def)
  have "map projr (map f ys) = map projr (map (Inr :: 'a \<Rightarrow> 'c + 'a) o2)"
    by (simp only: assms(2))
  then have ys: "map (projr \<circ> f) ys = o2" by (simp add: comp_def)
  have "subseq (map (projr \<circ> f) ys) (map (projr \<circ> f) xs)"
    using assms(3) by (rule subseq_map)
  then show ?thesis by (simp only: xs ys)
qed

text \<open>
  Claim C7. For a fixed dataset the output shrinks as \<open>min_matches\<close> grows: with
  \<open>m1 \<le> m2\<close>, every row that qualifies at \<open>m2\<close> qualifies at \<open>m1\<close>, and the result
  list at \<open>m2\<close> is a subsequence of the result list at \<open>m1\<close>.
\<close>

theorem min_matches_monotone:
  assumes "m1 \<le> m2"
  shows "\<exists>o1 o2. select_matched lib df m1 = Inr o1 \<and> select_matched lib df m2 = Inr o2
           \<and> subseq o2 o1
           \<and> (\<forall>r \<in> set (rows df). qualifies lib (search_columns df) m2 r
                  \<longrightarrow> qualifies lib (search_columns df) m1 r)"
proof -
  let ?cols = "search_columns df"
  obtain o1 where o1: "select_matched lib df m1 = Inr o1"
    "map Inr o1 = map (row_record lib df ?cols) (filter (qualifies lib ?cols m1) (rows df))"
    using select_matched_eq by blast
  obtain o2 where o2: "select_matched lib df m2 = Inr o2"
    "map Inr o2 = map (row_record lib df ?cols) (filter (qualifies lib ?cols m2) (rows df))"
    using select_matched_eq by blast
  have imp: "\<And>r. qualifies lib ?cols m2 r \<Longrightarrow> qualifies lib ?cols m1 r"
    using assms by (simp add: qualifies_def)
  then have "subseq (filter (qualifies lib ?cols m2) (rows df))
                    (filter (qualifies lib ?cols m1) (rows df))"
    by (rule filter_subseq_weaken)
  with o1(2) o2(2) have "subseq o2 o1" by (rule map_Inr_eq_subseq)
  with o1(1) o2(1) imp show ?thesis by blast
qed

theorem min_matches_monotone_witness:
  "(1::int) \<le> 5
   \<and> (\<exists>o1 o2. select_matched ascii_lib sample_frame 1 = Inr o1
         \<and> select_matched ascii_lib sample_frame 5 = Inr o2 \<and> subseq o2 o1
         \<and> (\<forall>r \<in> set (rows sample_frame).
               qualifies ascii_lib (search_columns sample_frame) 5 r
               \<longrightarrow> qualifies ascii_lib (search_columns sample_frame) 1 r))"
proof -
  have h: "(1::int) \<le> 5" by simp
  show ?thesis using h min_matches_monotone [OF h, of ascii_lib sample_frame] by simp
qed

text \<open>
  Claim C10. \<open>min_matches\<close> is any integer, with no lower bound checked; when it is at
  most 0 every row qualifies: the result has one record per input row, in order, and the
  record of a row carries the matches of that row, empty lists when it has none.
\<close>

theorem nonpositive_min_matches_keeps_all:
  assumes "min_matches \<le> 0"
  shows "\<exists>matched. select_matched lib df min_matches = Inr matched
           \<and> length matched = length (rows df)
           \<and> map Inr matched = map (row_record lib df (search_columns df)) (rows df)
           \<and> (\<forall>i < length (rows df).
                 Keyword_EN (matched ! i) = fst (row_matches lib (search_columns df) (rows df ! i))
               \<and> Keyword_TC (matched ! i) = snd (row_matches lib (search_columns df) (rows df ! i)))"
proof -
  let ?cols = "search_columns df"
  obtain matched where m: "select_matched lib df min_matches = Inr matched"
    "map Inr matched
       = map (row_record lib df ?cols) (filter (qualifies lib ?cols min_matches) (rows df))"
    using select_matched_eq by blast
  have "\<And>r. qualifies lib ?cols min_matches r"
    using assms by (simp add: qualifies_def)
  then have all: "filter (qualifies lib ?cols min_matches) (rows df) = rows df" by simp
  have eq: "map Inr matched = map (row_record lib df ?cols) (rows df)"
    using m(2) all by simp
  then have len: "length matched = length (rows df)"
    by (metis length_map)
  have kw: "Keyword_EN (matched ! i) = fst (row_matches lib ?cols (rows df ! i))
          \<and> Keyword_TC (matched ! i) = snd (row_matches lib ?cols (rows df ! i))"
    if "i < length (rows df)" for i
  proof -
    have "map Inr matched ! i = map (row_record lib df ?cols) (rows df) ! i"
      using eq by simp
    then have "row_record lib df ?cols (rows df ! i) = Inr (matched ! i)"
      using that len by simp
    then show ?thesis
      unfolding row_record_def by (rule build_record_keywords)
  qed
  from m(1) len eq kw show ?thesis by blast
qed

theorem nonpositive_min_matches_keeps_all_witness:
  "(0::int) \<le> 0
   \<and> (\<exists>matched. select_matched ascii_lib sample_frame 0 = Inr matched
         \<and> length matched = length (rows sample_frame)
         \<and> map Inr matched
           = map (row_record ascii_lib sample_frame (search_columns sample_frame))
               (rows sample_frame)
         \<and> (\<forall>i < length (rows sample_frame).
               Keyword_EN (matched ! i)
                 = fst (row_matches ascii_lib (search_columns sample_frame)
                          (rows sample_frame ! i))
             \<and> Keyword_TC (matched ! i)
                 = snd (row_matches ascii_lib (search_columns sample_frame)
                          (rows sample_frame ! i))))"
proof -
  have h: "(0::int) \<le> 0" by simp
  show ?thesis
    using h nonpositive_min_matches_keeps_all [OF h, of ascii_lib sample_frame] by simp
qed

section \<open>The coordinate conversion\<close>

text \<open>
  Claim C4. The coordinate parser returns a float or null and never raises: a missing
  value gives null; a string that \<^verbatim>\<open>float\<close> converts gives that float; when \<^verbatim>\<open>float\<close>
  raises, the string without its commas and surrounding whitespace is converted, and
  when that raises too the result is null. So \<^verbatim>\<open>"22,302"\<close>, which \<^verbatim>\<open>float\<close> rejects,
  gives the float of \<^verbatim>\<open>"22302"\<close>, and \<^verbatim>\<open>"N/A"\<close>, which \<^verbatim>\<open>float\<close> rejects, gives null.
\<close>

theorem to_float_or_none_lenient:
  "(\<exists>v. to_float_or_none lib c = Inr v)
   \<and> to_float_or_none lib Null = Inr None
   \<and> (py_float lib s = Inr x \<longrightarrow> to_float_or_none lib (Str s) = Inr (Some x))
   \<and> (py_float lib s = Inl e \<and> py_float lib (strip lib (replace_commas s)) = Inr x
        \<longrightarrow> to_float_or_none lib (Str s) = Inr (Some x))
   \<and> (py_float lib s = Inl e \<and> py_float lib (strip lib (replace_commas s)) = Inl e'
        \<longrightarrow> to_float_or_none lib (Str s) = Inr None)
   \<and> (\<not> isspace lib 50 \<and> py_float lib (ascii ''22,302'') = Inl e
        \<and> py_float lib (ascii ''22302'') = Inr x
        \<longrightarrow> to_float_or_none lib (Str (ascii ''22,302'')) = Inr (Some x))
   \<and> (\<not> isspace lib 78 \<and> \<not> isspace lib 65 \<and> py_float lib (ascii ''N/A'') = Inl e
        \<longrightarrow> to_float_or_none lib (Str (ascii ''N/A'')) = Inr None)"
proof (intro conjI impI)
  show "\<exists>v. to_float_or_none lib c = Inr v" by (rule to_float_or_none_Inr)
next
  assume "\<not> isspace lib 50 \<and> py_float lib (ascii ''22,302'') = Inl e
        \<and> py_float lib (ascii ''22302'') = Inr x"
  moreover from this have "strip lib (replace_commas (ascii ''22,302'')) = ascii ''22302''"
    by (simp add: strip_def replace_commas_def ascii_def)
  ultimately show "to_float_or_none lib (Str (ascii ''22,302'')) = Inr (Some x)"
    by (simp add: try_except_def)
next
  assume a: "\<not> isspace lib 78 \<and> \<not> isspace lib 65 \<and> py_float lib (ascii ''N/A'') = Inl e"
  then have "strip lib (replace_commas (ascii ''N/A'')) = ascii ''N/A''"
    by (simp add: strip_def replace_commas_def ascii_def)
  with a show "to_float_or_none lib (Str (ascii ''N/A'')) = Inr None"
    by (simp add: try_except_def)
qed (simp_all add: try_except_def)

theorem to_float_or_none_lenient_witness:
  "to_float_or_none ascii_lib (Str (ascii ''22,302'')) = Inr (Some 22302)
   \<and> to_float_or_none ascii_lib (Str (ascii ''N/A'')) = Inr None"
proof -
  have a: "\<not> isspace ascii_lib 50 \<and> py_float ascii_lib (ascii ''22,302'') = Inl ValueError
        \<and> py_float ascii_lib (ascii ''22302'') = Inr 22302"
    by (simp add: ascii_lib_def ascii_space_def ascii_float_def ascii_def)
  have b: "\<not> isspace ascii_lib 78 \<and> \<not> isspace ascii_lib 65
        \<and> py_float ascii_lib (ascii ''N/A'') = Inl ValueError"
    by (simp add: ascii_lib_def ascii_space_def ascii_float_def ascii_def)
  show ?thesis
    using a b to_float_or_none_lenient
      [of ascii_lib Null "ascii ''22,302''" 22302 ValueError ValueError]
    by blast
qed

section \<open>The column resolver\<close>

lemma first_existing_skip:
  "\<forall>d \<in> set pre. \<not> populated lib df r d \<Longrightarrow>
     first_existing lib df r (pre @ cs) = first_existing lib df r cs"
  by (induction pre)
     (auto simp: populated_def row_get_def split: option.splits cell.splits)

text \<open>
  Claim C3. For every row and candidate list, the column resolver returns the trimmed
  value of the first candidate that is a column of the dataset and whose value in the
  row is a string that is not empty and not only whitespace; when no candidate
  qualifies, and so when no candidate is a column of the dataset, it returns the empty
  string. The result is a string in every case: the function has no null and no error
  result.
\<close>

theorem first_existing_first_populated:
  "(cands = pre @ c # post \<and> (\<forall>d \<in> set pre. \<not> populated lib df r d)
      \<and> c \<in> set (columns df) \<and> r c = Some (Str v) \<and> strip lib v \<noteq> []
      \<longrightarrow> first_existing lib df r cands = strip lib v)
   \<and> ((\<forall>d \<in> set cands. \<not> populated lib df r d) \<longrightarrow> first_existing lib df r cands = [])
   \<and> (set cands \<inter> set (columns df) = {} \<longrightarrow> first_existing lib df r cands = [])"
proof (intro conjI impI)
  assume a: "cands = pre @ c # post \<and> (\<forall>d \<in> set pre. \<not> populated lib df r d)
      \<and> c \<in> set (columns df) \<and> r c = Some (Str v) \<and> strip lib v \<noteq> []"
  then have "first_existing lib df r cands = first_existing lib df r (c # post)"
    using first_existing_skip [of pre lib df r "c # post"] by simp
  also have "\<dots> = strip lib v" using a by (simp add: row_get_def)
  finally show "first_existing lib df r cands = strip lib v" .
next
  assume "\<forall>d \<in> set cands. \<not> populated lib df r d"
  then show "first_existing lib df r cands = []"
    using first_existing_skip [of cands lib df r "[]"] by simp
next
  assume "set cands \<inter> set (columns df) = {}"
  then have "\<forall>d \<in> set cands. \<not> populated lib df r d"
    by (auto simp: populated_def)
  then show "first_existing lib df r cands = []"
    using first_existing_skip [of cands lib df r "[]"] by simp
qed

theorem first_existing_first_populated_witness:
  "first_existing ascii_lib sample_frame (sample_row '' Noodle Bar '' [] [] [])
     (col_map F_Name_EN) = ascii ''Noodle Bar''
   \<and> first_existing ascii_lib sample_frame (sample_row '' Noodle Bar '' [] [] [])
     (col_map F_Address_TC) = []"
proof -
  let ?r = "sample_row '' Noodle Bar '' [] [] []"
  have cands: "col_map F_Name_EN
      = [ascii ''NSEARCH03_EN''] @ ascii ''NAME_EN''
          # [ascii ''NSEARCH03'', ascii ''ESTABLISHMENT_NAME_EN'']"
    by simp
  have pre: "\<forall>d \<in> set [ascii ''NSEARCH03_EN'']. \<not> populated ascii_lib sample_frame ?r d"
    by (simp add: populated_def sample_frame_def sample_columns_def ascii_def)
  have col: "ascii ''NAME_EN'' \<in> set (columns sample_frame)"
    by (simp add: sample_frame_def sample_columns_def)
  have val: "?r (ascii ''NAME_EN'') = Some (Str (ascii '' Noodle Bar ''))"
    by (simp add: sample_row_def)
  have strip: "strip ascii_lib (ascii '' Noodle Bar '') = ascii ''Noodle Bar''"
    by (simp add: strip_def ascii_lib_def ascii_space_def ascii_def)
  have absent: "set (col_map F_Address_TC) \<inter> set (columns sample_frame) = {}"
    by (simp add: sample_frame_def sample_columns_def ascii_def)
  have ne: "ascii ''Noodle Bar'' \<noteq> []" by (simp add: ascii_def)
  show ?thesis
    using first_existing_first_populated
      [of "col_map F_Name_EN" "[ascii ''NSEARCH03_EN'']" "ascii ''NAME_EN''"
          "[ascii ''NSEARCH03'', ascii ''ESTABLISHMENT_NAME_EN'']" ascii_lib sample_frame ?r
          "ascii '' Noodle Bar ''"]
      first_existing_first_populated
      [of "col_map F_Address_TC" "[]" "[]" "[]" ascii_lib sample_frame ?r "[]"]
      cands pre col val strip absent ne
    by simp
qed

section \<open>A value that is not a string skips its column, not the row\<close>

lemma scan_column_Null:
  "row_get r c (Str []) = Null \<Longrightarrow> scan_column lib r acc c = acc"
  by (simp add: scan_column_def)

lemma foldl_scan_column_filter:
  "foldl (scan_column lib r) acc cols
     = foldl (scan_column lib r) acc (filter (\<lambda>c. row_get r c (Str []) \<noteq> Null) cols)"
  by (induction cols arbitrary: acc) (simp_all add: scan_column_Null)

lemma sample_search_columns:
  "search_columns \<lparr>columns = sample_columns, rows = rs\<rparr>
     = [ascii ''NAME_EN'', ascii ''NAME_TC'', ascii ''ADDRESS_EN'']"
  by (simp add: search_columns_def search_candidates_def add_search_column_def
      sample_columns_def ascii_def)

text \<open>
  Claim C2 says that a row in which some searchable column holds a value that is not a
  string is skipped entirely, and so is absent from the output. The source leaves the
  column with \<^verbatim>\<open>continue\<close> and goes on with the next column: the row of
  \<open>missing_name_frame\<close> has no value in the searchable column \<^verbatim>\<open>NAME_EN\<close>, its Chinese
  name is still scanned, and the row is in the output at \<open>min_matches = 1\<close>.
\<close>

theorem row_with_missing_cell_still_scanned:
  "ascii ''NAME_EN'' \<in> set (search_columns missing_name_frame)
   \<and> row_get (sample_row [] [0x7D20, 0x98DF] [] []) (ascii ''NAME_EN'') (Str []) = Null
   \<and> select_matched ascii_lib missing_name_frame 1
       = Inr [\<lparr>Name_EN = [], Name_TC = [0x7D20, 0x98DF], Address_EN = [], Address_TC = [],
               District_EN = [], District_TC = [], Latitude = None, Longitude = None,
               Keyword_EN = [], Keyword_TC = [[0x7D20, 0x98DF]]\<rparr>]"
proof -
  let ?r = "sample_row [] [0x7D20, 0x98DF] [] []"
  let ?cols = "[ascii ''NAME_EN'', ascii ''NAME_TC'', ascii ''ADDRESS_EN'']"
  have cols: "search_columns missing_name_frame = ?cols"
    unfolding missing_name_frame_def by (rule sample_search_columns)
  have get: "row_get ?r (ascii ''NAME_EN'') (Str []) = Null"
    by (simp add: row_get_def sample_row_def ascii_def)
  have en: "findall ascii_lib None [0x7D20, 0x98DF] = []"
    by (simp add: findall.simps eng_pattern_match_def at_boundary_def is_word_def
        first_char_def ascii_lib_def ascii_word_def eng_keywords_def ascii_def
        ascii_lower_def last_char_def)
  have matches: "row_matches ascii_lib ?cols ?r = ([], [[0x7D20, 0x98DF]])"
    by (simp add: row_matches_def scan_column_def row_get_def sample_row_def ascii_def en
        add_cn_def cn_keywords_def)
  have strip: "strip ascii_lib [0x7D20, 0x98DF] = [0x7D20, 0x98DF]"
    by (simp add: strip_def ascii_lib_def ascii_space_def)
  have built: "build_record ascii_lib missing_name_frame ?r [] [[0x7D20, 0x98DF]]
       = Inr \<lparr>Name_EN = [], Name_TC = [0x7D20, 0x98DF], Address_EN = [], Address_TC = [],
               District_EN = [], District_TC = [], Latitude = None, Longitude = None,
               Keyword_EN = [], Keyword_TC = [[0x7D20, 0x98DF]]\<rparr>"
    by (simp add: build_record_def missing_name_frame_def sample_columns_def row_get_def
        sample_row_def ascii_def strip)
  have "select_matched ascii_lib missing_name_frame 1
       = Inr [\<lparr>Name_EN = [], Name_TC = [0x7D20, 0x98DF], Address_EN = [], Address_TC = [],
               District_EN = [], District_TC = [], Latitude = None, Longitude = None,
               Keyword_EN = [], Keyword_TC = [[0x7D20, 0x98DF]]\<rparr>]"
    unfolding select_matched_def cols
    by (simp add: missing_name_frame_def process_row_def matches
        built [unfolded missing_name_frame_def])
  with cols get show ?thesis by simp
qed

section \<open>The keyword sequences of a row\<close>

lemma set_first_seen: "set (first_seen xs) = set xs"
  by (induction xs) auto

lemma distinct_first_seen: "distinct (first_seen xs)"
  by (induction xs) (auto simp: set_first_seen)

lemma first_index_Cons:
  "first_index a (x # xs) = (if a = x then 0 else Suc (first_index a xs))"
  by (simp add: first_index_def)

lemma sorted_first_seen:
  "sorted_wrt (\<lambda>a b. first_index a xs < first_index b xs) (first_seen xs)"
proof (induction xs)
  case Nil
  then show ?case by simp
next
  case (Cons x xs)
  let ?ys = "filter (\<lambda>y. y \<noteq> x) (first_seen xs)"
  have "sorted_wrt (\<lambda>a b. first_index a xs < first_index b xs) ?ys"
    using Cons by (rule sorted_wrt_filter)
  then have tail: "sorted_wrt (\<lambda>a b. first_index a (x # xs) < first_index b (x # xs)) ?ys"
    by (rule sorted_wrt_mono_rel [rotated]) (simp add: first_index_Cons)
  have "\<forall>y \<in> set ?ys. first_index x (x # xs) < first_index y (x # xs)"
    by (simp add: first_index_Cons)
  with tail show ?case by simp
qed

lemma foldl_append_new:
  "foldl append_new acc xs = acc @ filter (\<lambda>y. y \<notin> set acc) (first_seen xs)"
proof (induction xs arbitrary: acc)
  case Nil
  then show ?case by simp
next
  case (Cons x xs)
  show ?case
  proof (cases "x \<in> set acc")
    case True
    then have "filter (\<lambda>y. y \<notin> set acc) (filter (\<lambda>y. y \<noteq> x) (first_seen xs))
        = filter (\<lambda>y. y \<notin> set acc) (first_seen xs)"
      by (auto simp: filter_filter intro: filter_cong)
    with True Cons [of acc] show ?thesis by (simp add: append_new_def)
  next
    case False
    have "filter (\<lambda>y. y \<notin> set (acc @ [x])) (first_seen xs)
        = filter (\<lambda>y. y \<notin> set acc) (filter (\<lambda>y. y \<noteq> x) (first_seen xs))"
      by (auto simp: filter_filter intro: filter_cong)
    with False Cons [of "acc @ [x]"] show ?thesis by (simp add: append_new_def)
  qed
qed

lemma foldl_add_en:
  "foldl (add_en lib) en ms = foldl append_new en (map (str_lower lib) ms)"
  by (induction ms arbitrary: en) (simp_all add: add_en_def append_new_def Let_def)

lemma foldl_add_cn:
  "foldl (add_cn val) cn ks = foldl append_new cn (filter (\<lambda>kw. py_in kw val) ks)"
  by (induction ks arbitrary: cn) (simp_all add: add_cn_def append_new_def)

lemma foldl_scan_column:
  "foldl (scan_column lib r) (en, cn) cols
     = (foldl append_new en (en_stream lib cols r), foldl append_new cn (cn_stream cols r))"
proof (induction cols arbitrary: en cn)
  case Nil
  then show ?case by (simp add: en_stream_def cn_stream_def scanned_values_def)
next
  case (Cons c cols)
  show ?case
  proof (cases "row_get r c (Str [])")
    case Null
    then have "scan_column lib r (en, cn) c = (en, cn)" by (simp add: scan_column_def)
    moreover have "en_stream lib (c # cols) r = en_stream lib cols r"
      "cn_stream (c # cols) r = cn_stream cols r"
      using Null by (simp_all add: en_stream_def cn_stream_def scanned_values_def)
    ultimately show ?thesis using Cons [of en cn] by simp
  next
    case (Str val)
    then have step: "scan_column lib r (en, cn) c
        = (foldl append_new en (map (str_lower lib) (findall lib None val)),
           foldl append_new cn (filter (\<lambda>kw. py_in kw val) cn_keywords))"
      by (simp add: scan_column_def foldl_add_en foldl_add_cn)
    have streams:
      "en_stream lib (c # cols) r
         = map (str_lower lib) (findall lib None val) @ en_stream lib cols r"
      "cn_stream (c # cols) r = filter (\<lambda>kw. py_in kw val) cn_keywords @ cn_stream cols r"
      using Str
      by (simp_all add: en_stream_def cn_stream_def scanned_values_def en_found_def cn_found_def)
    show ?thesis
      using Cons [of "foldl append_new en (map (str_lower lib) (findall lib None val))"
                     "foldl append_new cn (filter (\<lambda>kw. py_in kw val) cn_keywords)"]
      by (simp add: step streams)
  qed
qed

lemma row_matches_first_seen:
  "row_matches lib cols r = (first_seen (en_stream lib cols r), first_seen (cn_stream cols r))"
  by (simp add: row_matches_def foldl_scan_column foldl_append_new)

lemma set_scanned_values:
  "set (scanned_values cols r) = {v. \<exists>c \<in> set cols. row_get r c (Str []) = Str v}"
  by (induction cols) (auto simp: scanned_values_def split: cell.splits)

lemma set_en_matches:
  "set (fst (row_matches lib cols r))
     = {str_lower lib m | m c v.
          c \<in> set cols \<and> row_get r c (Str []) = Str v \<and> m \<in> set (findall lib None v)}"
  by (auto simp: row_matches_first_seen set_first_seen en_stream_def en_found_def
      set_scanned_values)

lemma set_cn_matches:
  "set (snd (row_matches lib cols r))
     = {kw \<in> set cn_keywords. \<exists>c \<in> set cols. \<exists>v. row_get r c (Str []) = Str v \<and> py_in kw v}"
  by (auto simp: row_matches_first_seen set_first_seen cn_stream_def cn_found_def
      set_scanned_values)

lemma distinct_row_matches:
  "distinct (fst (row_matches lib cols r)) \<and> distinct (snd (row_matches lib cols r))"
  by (simp add: row_matches_first_seen distinct_first_seen)

text \<open>
  Claim C5. In the Output Record of a row, \<open>Keyword_EN\<close> and \<open>Keyword_TC\<close> have no
  duplicate entry, hold exactly the keywords met while the searchable columns are
  scanned in their fixed order, and list them in the order in which they are first met:
  an entry first met earlier in the scan stands earlier in the sequence.
\<close>

theorem keywords_distinct_first_seen_order:
  assumes "row_record lib df cols r = Inr out"
  shows "distinct (Keyword_EN out) \<and> distinct (Keyword_TC out)
         \<and> set (Keyword_EN out) = set (en_stream lib cols r)
         \<and> set (Keyword_TC out) = set (cn_stream cols r)
         \<and> sorted_wrt (\<lambda>a b. first_index a (en_stream lib cols r)
                              < first_index b (en_stream lib cols r)) (Keyword_EN out)
         \<and> sorted_wrt (\<lambda>a b. first_index a (cn_stream cols r)
                              < first_index b (cn_stream cols r)) (Keyword_TC out)"
proof -
  from assms have "Keyword_EN out = fst (row_matches lib cols r)
      \<and> Keyword_TC out = snd (row_matches lib cols r)"
    unfolding row_record_def by (rule build_record_keywords)
  then have "Keyword_EN out = first_seen (en_stream lib cols r)"
    "Keyword_TC out = first_seen (cn_stream cols r)"
    by (simp_all add: row_matches_first_seen)
  then show ?thesis
    by (simp add: distinct_first_seen set_first_seen sorted_first_seen)
qed

section \<open>A value that is not a string skips its column only\<close>

lemma row_matches_string_columns:
  "row_matches lib cols r
     = row_matches lib (filter (\<lambda>c. row_get r c (Str []) \<noteq> Null) cols) r"
  using foldl_scan_column_filter [of lib r "([], [])" cols]
  by (simp add: row_matches_def)

lemma qualifies_string_columns:
  "qualifies lib (filter (\<lambda>c. row_get r c (Str []) \<noteq> Null) cols) m r = qualifies lib cols m r"
  using row_matches_string_columns [of lib cols r] by (simp add: qualifies_def)

text \<open>
  Claim C2, amended. A value that is not a string makes the keyword matcher skip that
  column only. The matches of a row are those of its searchable columns that hold a
  string: every such column is scanned, whatever the other columns hold, so the English
  matches are the lowercased matches of the pattern in these strings and the Chinese
  matches are the keywords contained in one of them. The row is appended to the result
  exactly when the matches found in its string-valued columns reach \<open>min_matches\<close>, and
  the result list is, in row order, the records of these rows.
\<close>

theorem non_string_cell_skips_only_its_column:
  "row_matches lib cols r
     = row_matches lib (filter (\<lambda>c. row_get r c (Str []) \<noteq> Null) cols) r
   \<and> set (fst (row_matches lib cols r))
       = {str_lower lib m | m c v.
            c \<in> set cols \<and> row_get r c (Str []) = Str v \<and> m \<in> set (findall lib None v)}
   \<and> set (snd (row_matches lib cols r))
       = {kw \<in> set cn_keywords.
            \<exists>c \<in> set cols. \<exists>v. row_get r c (Str []) = Str v \<and> py_in kw v}
   \<and> (\<exists>out. row_record lib df cols r = Inr out
         \<and> process_row lib df cols min_matches matched r
             = Inr (if qualifies lib (filter (\<lambda>c. row_get r c (Str []) \<noteq> Null) cols)
                         min_matches r
                    then matched @ [out] else matched))
   \<and> (\<exists>result. select_matched lib df min_matches = Inr result
         \<and> map Inr result
           = map (row_record lib df (search_columns df))
               (filter (\<lambda>r. qualifies lib
                               (filter (\<lambda>c. row_get r c (Str []) \<noteq> Null) (search_columns df))
                               min_matches r)
                  (rows df)))"
proof (intro conjI)
  show "row_matches lib cols r
     = row_matches lib (filter (\<lambda>c. row_get r c (Str []) \<noteq> Null) cols) r"
    by (rule row_matches_string_columns)
next
  show "set (fst (row_matches lib cols r))
       = {str_lower lib m | m c v.
            c \<in> set cols \<and> row_get r c (Str []) = Str v \<and> m \<in> set (findall lib None v)}"
    by (rule set_en_matches)
next
  show "set (snd (row_matches lib cols r))
       = {kw \<in> set cn_keywords.
            \<exists>c \<in> set cols. \<exists>v. row_get r c (Str []) = Str v \<and> py_in kw v}"
    by (rule set_cn_matches)
next
  obtain out where out: "row_record lib df cols r = Inr out"
    unfolding row_record_def using build_record_Inr by blast
  then have "process_row lib df cols min_matches matched r
      = Inr (if qualifies lib (filter (\<lambda>c. row_get r c (Str []) \<noteq> Null) cols) min_matches r
             then matched @ [out] else matched)"
    by (simp add: process_row_eq qualifies_string_columns)
  with out show "\<exists>out. row_record lib df cols r = Inr out
         \<and> process_row lib df cols min_matches matched r
             = Inr (if qualifies lib (filter (\<lambda>c. row_get r c (Str []) \<noteq> Null) cols)
                         min_matches r
                    then matched @ [out] else matched)"
    by blast
next
  show "\<exists>result. select_matched lib df min_matches = Inr result
         \<and> map Inr result
           = map (row_record lib df (search_columns df))
               (filter (\<lambda>r. qualifies lib
                               (filter (\<lambda>c. row_get r c (Str []) \<noteq> Null) (search_columns df))
                               min_matches r)
                  (rows df))"
    using select_matched_eq [of lib df min_matches]
    by (simp add: qualifies_string_columns)
qed

section \<open>Evaluating the model on the sample rows\<close>

lemmas findall_eval =
  findall.simps eng_pattern_match_def at_boundary_def is_word_def first_char_def
  last_char_def eng_keywords_def ascii_def ascii_lower_def ascii_word_def

lemma ascii_conformant_ascii_lib: "ascii_conformant ascii_lib"
  by (simp add: ascii_conformant_def ascii_lib_def)

lemma findall_green_vegetarian:
  assumes "ascii_conformant lib"
  shows "findall lib None (ascii ''Green Vegetarian Restaurant'') = [ascii ''Vegetarian'']"
proof -
  have w: "\<And>c. c < 128 \<Longrightarrow> re_word lib c = ascii_word c"
    using assms by (simp add: ascii_conformant_def)
  have ci: "\<And>p c. p < 128 \<Longrightarrow> c < 128 \<Longrightarrow> re_ci lib p c = (ascii_lower c = ascii_lower p)"
    using assms by (simp add: ascii_conformant_def)
  show ?thesis by (simp add: findall_eval w ci)
qed

lemma lower_vegetarian:
  assumes "ascii_conformant lib"
  shows "str_lower lib (ascii ''Vegetarian'') = ascii ''vegetarian''"
proof -
  have "\<forall>c \<in> set (ascii ''Vegetarian''). c < 128" by (simp add: ascii_def)
  with assms have "str_lower lib (ascii ''Vegetarian'') = map ascii_lower (ascii ''Vegetarian'')"
    by (simp add: ascii_conformant_def)
  then show ?thesis by (simp add: ascii_def ascii_lower_def)
qed

lemma tokens_green:
  "en_found ascii_lib (ascii ''Green Vegetarian Restaurant'')
     = [ascii ''vegetarian'']"
  by (simp add: en_found_def findall_green_vegetarian lower_vegetarian
      ascii_conformant_ascii_lib)

lemma tokens_main_street:
  "en_found ascii_lib (ascii ''1 Main Street'') = []"
  by (simp add: en_found_def findall_eval ascii_lib_def)

lemma tokens_vegan_road:
  "en_found ascii_lib (ascii ''2 Vegan Road'')
     = [ascii ''vegan'']"
  by (simp add: en_found_def findall_eval ascii_lib_def)

lemma tokens_noodle_bar:
  "en_found ascii_lib (ascii ''Noodle Bar'') = []"
  by (simp add: en_found_def findall_eval ascii_lib_def)

lemma tokens_su_shi:
  "en_found ascii_lib [0x7D20, 0x98DF] = []"
  by (simp add: en_found_def findall_eval ascii_lib_def)

lemma tokens_su_shi_guan:
  "en_found ascii_lib [0x7D20, 0x98DF, 0x9928] = []"
  by (simp add: en_found_def findall_eval ascii_lib_def)

lemma cn_green:
  "cn_found (ascii ''Green Vegetarian Restaurant'') = []"
  by (simp add: cn_found_def cn_keywords_def ascii_def)

lemma cn_main_street: "cn_found (ascii ''1 Main Street'') = []"
  by (simp add: cn_found_def cn_keywords_def ascii_def)

lemma cn_vegan_road: "cn_found (ascii ''2 Vegan Road'') = []"
  by (simp add: cn_found_def cn_keywords_def ascii_def)

lemma cn_noodle_bar: "cn_found (ascii ''Noodle Bar'') = []"
  by (simp add: cn_found_def cn_keywords_def ascii_def)

lemma cn_su_shi: "cn_found [0x7D20, 0x98DF] = [[0x7D20, 0x98DF]]"
  by (simp add: cn_found_def cn_keywords_def)

lemma cn_su_shi_guan:
  "cn_found [0x7D20, 0x98DF, 0x9928]
     = [[0x7D20, 0x98DF], [0x7D20, 0x98DF, 0x9928]]"
  by (simp add: cn_found_def cn_keywords_def)

lemmas sample_tokens =
  tokens_green tokens_main_street tokens_vegan_road tokens_noodle_bar tokens_su_shi
  tokens_su_shi_guan cn_green cn_main_street cn_vegan_road cn_noodle_bar cn_su_shi
  cn_su_shi_guan

lemma ascii_eq_iff: "ascii a = ascii b \<longleftrightarrow> a = b"
  by (simp add: ascii_def inj_map_eq_map [OF inj_of_char])

lemma sample_scanned_values:
  "scanned_values [ascii ''NAME_EN'', ascii ''NAME_TC'', ascii ''ADDRESS_EN'']
       (sample_row name_en name_tc address_en latitude)
     = (if name_en = [] then [] else [ascii name_en])
       @ (if name_tc = [] then [] else [name_tc])
       @ (if address_en = [] then [] else [ascii address_en])"
  by (simp add: scanned_values_def row_get_def sample_row_def ascii_eq_iff)

lemma sample_row_matches:
  "row_matches lib [ascii ''NAME_EN'', ascii ''NAME_TC'', ascii ''ADDRESS_EN'']
       (sample_row name_en name_tc address_en latitude)
     = (first_seen (concat (map (en_found lib)
          ((if name_en = [] then [] else [ascii name_en])
           @ (if name_tc = [] then [] else [name_tc])
           @ (if address_en = [] then [] else [ascii address_en])))),
        first_seen (concat (map cn_found
          ((if name_en = [] then [] else [ascii name_en])
           @ (if name_tc = [] then [] else [name_tc])
           @ (if address_en = [] then [] else [ascii address_en])))))"
  by (simp only: row_matches_first_seen en_stream_def cn_stream_def sample_scanned_values)

lemma missing_name_matches:
  "row_matches ascii_lib [ascii ''NAME_EN'', ascii ''NAME_TC'', ascii ''ADDRESS_EN'']
       (sample_row [] [0x7D20, 0x98DF] [] [])
     = ([], [[0x7D20, 0x98DF]])"
  by (simp add: sample_row_matches sample_tokens)

lemma repeated_keyword_matches:
  "row_matches ascii_lib [ascii ''NAME_EN'', ascii ''NAME_TC'', ascii ''ADDRESS_EN'']
       (sample_row ''2 Vegan Road'' [0x7D20, 0x98DF, 0x9928] ''2 Vegan Road'' [])
     = ([ascii ''vegan''], [[0x7D20, 0x98DF], [0x7D20, 0x98DF, 0x9928]])"
  by (simp add: sample_row_matches sample_tokens)

lemma missing_name_record:
  "build_record ascii_lib missing_name_frame (sample_row [] [0x7D20, 0x98DF] [] [])
       [] [[0x7D20, 0x98DF]]
     = Inr \<lparr>Name_EN = [], Name_TC = [0x7D20, 0x98DF], Address_EN = [], Address_TC = [],
            District_EN = [], District_TC = [], Latitude = None, Longitude = None,
            Keyword_EN = [], Keyword_TC = [[0x7D20, 0x98DF]]\<rparr>"
  by (simp add: build_record_def missing_name_frame_def sample_columns_def row_get_def
      sample_row_def ascii_def strip_def ascii_lib_def ascii_space_def)

theorem non_string_cell_skips_only_its_column_witness:
  "row_get (sample_row [] [0x7D20, 0x98DF] [] []) (ascii ''NAME_EN'') (Str []) = Null
   \<and> row_matches ascii_lib (search_columns missing_name_frame)
        (sample_row [] [0x7D20, 0x98DF] [] [])
       = row_matches ascii_lib [ascii ''NAME_TC''] (sample_row [] [0x7D20, 0x98DF] [] [])
   \<and> row_matches ascii_lib (search_columns missing_name_frame)
        (sample_row [] [0x7D20, 0x98DF] [] [])
       = ([], [[0x7D20, 0x98DF]])
   \<and> process_row ascii_lib missing_name_frame (search_columns missing_name_frame) 1 []
        (sample_row [] [0x7D20, 0x98DF] [] [])
       = Inr [\<lparr>Name_EN = [], Name_TC = [0x7D20, 0x98DF], Address_EN = [], Address_TC = [],
               District_EN = [], District_TC = [], Latitude = None, Longitude = None,
               Keyword_EN = [], Keyword_TC = [[0x7D20, 0x98DF]]\<rparr>]"
proof -
  let ?r = "sample_row [] [0x7D20, 0x98DF] [] []"
  let ?cols = "[ascii ''NAME_EN'', ascii ''NAME_TC'', ascii ''ADDRESS_EN'']"
  have cols: "search_columns missing_name_frame = ?cols"
    unfolding missing_name_frame_def by (rule sample_search_columns)
  have get: "row_get ?r (ascii ''NAME_EN'') (Str []) = Null"
    by (simp add: row_get_def sample_row_def ascii_def)
  have strings: "filter (\<lambda>c. row_get ?r c (Str []) \<noteq> Null) ?cols = [ascii ''NAME_TC'']"
    by (simp add: row_get_def sample_row_def ascii_eq_iff)
  have matches: "row_matches ascii_lib ?cols ?r = ([], [[0x7D20, 0x98DF]])"
    by (rule missing_name_matches)
  have built: "row_record ascii_lib missing_name_frame ?cols ?r
       = Inr \<lparr>Name_EN = [], Name_TC = [0x7D20, 0x98DF], Address_EN = [], Address_TC = [],
              District_EN = [], District_TC = [], Latitude = None, Longitude = None,
              Keyword_EN = [], Keyword_TC = [[0x7D20, 0x98DF]]\<rparr>"
    by (simp add: row_record_def matches missing_name_record)
  note inst = non_string_cell_skips_only_its_column
    [of ascii_lib ?cols ?r missing_name_frame 1 "[]"]
  from inst have skipped: "row_matches ascii_lib ?cols ?r
      = row_matches ascii_lib [ascii ''NAME_TC''] ?r"
    by (simp only: strings)
  have "row_matches ascii_lib [ascii ''NAME_TC''] ?r = ([], [[0x7D20, 0x98DF]])"
    using skipped matches by simp
  then have q: "qualifies ascii_lib [ascii ''NAME_TC''] 1 ?r"
    by (simp add: qualifies_def)
  from inst obtain out where out: "row_record ascii_lib missing_name_frame ?cols ?r = Inr out"
    "process_row ascii_lib missing_name_frame ?cols 1 [] ?r
       = Inr (if qualifies ascii_lib (filter (\<lambda>c. row_get ?r c (Str []) \<noteq> Null) ?cols) 1 ?r
              then [] @ [out] else [])"
    by blast
  from out(2) q have "process_row ascii_lib missing_name_frame ?cols 1 [] ?r = Inr [out]"
    by (simp only: strings if_True append_Nil)
  with out(1) built have "process_row ascii_lib missing_name_frame ?cols 1 [] ?r
       = Inr [\<lparr>Name_EN = [], Name_TC = [0x7D20, 0x98DF], Address_EN = [], Address_TC = [],
               District_EN = [], District_TC = [], Latitude = None, Longitude = None,
               Keyword_EN = [], Keyword_TC = [[0x7D20, 0x98DF]]\<rparr>]"
    by simp
  with get skipped matches show ?thesis by (simp only: cols simp_thms)
qed

theorem keywords_distinct_first_seen_order_witness:
  "\<exists>out. row_record ascii_lib repeated_keyword_frame
            (search_columns repeated_keyword_frame) repeated_keyword_row = Inr out
     \<and> en_stream ascii_lib (search_columns repeated_keyword_frame) repeated_keyword_row
         = [ascii ''vegan'', ascii ''vegan'']
     \<and> cn_stream (search_columns repeated_keyword_frame) repeated_keyword_row
         = [[0x7D20, 0x98DF], [0x7D20, 0x98DF, 0x9928]]
     \<and> Keyword_EN out = [ascii ''vegan'']
     \<and> Keyword_TC out = [[0x7D20, 0x98DF], [0x7D20, 0x98DF, 0x9928]]
     \<and> distinct (Keyword_EN out) \<and> distinct (Keyword_TC out)
     \<and> sorted_wrt (\<lambda>a b. first_index a [[0x7D20, 0x98DF], [0x7D20, 0x98DF, 0x9928]]
                          < first_index b [[0x7D20, 0x98DF], [0x7D20, 0x98DF, 0x9928]])
          (Keyword_TC out)"
proof -
  let ?cols = "[ascii ''NAME_EN'', ascii ''NAME_TC'', ascii ''ADDRESS_EN'']"
  have cols: "search_columns repeated_keyword_frame = ?cols"
    unfolding repeated_keyword_frame_def by (rule sample_search_columns)
  obtain out where out:
    "row_record ascii_lib repeated_keyword_frame ?cols repeated_keyword_row = Inr out"
    unfolding row_record_def using build_record_Inr by blast
  have en: "en_stream ascii_lib ?cols repeated_keyword_row = [ascii ''vegan'', ascii ''vegan'']"
    by (simp add: en_stream_def repeated_keyword_row_def sample_scanned_values sample_tokens)
  have cn: "cn_stream ?cols repeated_keyword_row
      = [[0x7D20, 0x98DF], [0x7D20, 0x98DF, 0x9928]]"
    by (simp add: cn_stream_def repeated_keyword_row_def sample_scanned_values sample_tokens)
  have kw: "Keyword_EN out = [ascii ''vegan'']"
    "Keyword_TC out = [[0x7D20, 0x98DF], [0x7D20, 0x98DF, 0x9928]]"
    using build_record_keywords [OF out [unfolded row_record_def]]
    by (simp_all add: repeated_keyword_row_def repeated_keyword_matches)
  from keywords_distinct_first_seen_order [OF out]
  have props: "distinct (Keyword_EN out) \<and> distinct (Keyword_TC out)
      \<and> sorted_wrt (\<lambda>a b. first_index a [[0x7D20, 0x98DF], [0x7D20, 0x98DF, 0x9928]]
                           < first_index b [[0x7D20, 0x98DF], [0x7D20, 0x98DF, 0x9928]])
           (Keyword_TC out)"
    by (simp only: cn)
  have "row_record ascii_lib repeated_keyword_frame ?cols repeated_keyword_row = Inr out
     \<and> en_stream ascii_lib ?cols repeated_keyword_row = [ascii ''vegan'', ascii ''vegan'']
     \<and> cn_stream ?cols repeated_keyword_row = [[0x7D20, 0x98DF], [0x7D20, 0x98DF, 0x9928]]
     \<and> Keyword_EN out = [ascii ''vegan'']
     \<and> Keyword_TC out = [[0x7D20, 0x98DF], [0x7D20, 0x98DF, 0x9928]]
     \<and> distinct (Keyword_EN out) \<and> distinct (Keyword_TC out)
     \<and> sorted_wrt (\<lambda>a b. first_index a [[0x7D20, 0x98DF], [0x7D20, 0x98DF, 0x9928]]
                          < first_index b [[0x7D20, 0x98DF], [0x7D20, 0x98DF, 0x9928]])
          (Keyword_TC out)"
    using out en cn kw props by simp
  then show ?thesis unfolding cols by (rule exI)
qed

section \<open>A longer Chinese keyword records the shorter one too\<close>

lemma py_in_append: "py_in kw (ps @ kw @ ss)"
proof (induction ps)
  case Nil
  have "startswith (kw @ ss) kw" by (induction kw) simp_all
  then show ?case by (cases "kw @ ss") auto
next
  case (Cons p ps)
  then show ?case by simp
qed

lemma two_members_length:
  assumes "a \<in> set xs" and "b \<in> set xs" and "a \<noteq> b"
  shows "2 \<le> length xs"
proof -
  have "card {a, b} \<le> card (set xs)"
    using assms by (intro card_mono) auto
  also have "\<dots> \<le> length xs" by (rule card_length)
  finally show ?thesis using assms(3) by simp
qed

text \<open>
  Claim C9. Chinese matching is substring containment with no exclusion between
  keywords: for every row in which a searchable column holds a string that contains
  the three characters U+7D20 U+98DF U+9928, \<open>Keyword_TC\<close> contains both the keyword
  U+7D20 U+98DF and the keyword U+7D20 U+98DF U+9928; they count as two matches, so the
  row reaches \<open>min_matches = 2\<close> and is appended.
\<close>

theorem longer_chinese_keyword_records_both:
  assumes "c \<in> set (search_columns df)"
      and "r c = Some (Str (ps @ [0x7D20, 0x98DF, 0x9928] @ ss))"
  shows "[0x7D20, 0x98DF] \<in> set (snd (row_matches lib (search_columns df) r))
       \<and> [0x7D20, 0x98DF, 0x9928] \<in> set (snd (row_matches lib (search_columns df) r))
       \<and> 2 \<le> length (snd (row_matches lib (search_columns df) r))
       \<and> qualifies lib (search_columns df) 2 r
       \<and> (\<exists>out. row_record lib df (search_columns df) r = Inr out
             \<and> [0x7D20, 0x98DF] \<in> set (Keyword_TC out)
             \<and> [0x7D20, 0x98DF, 0x9928] \<in> set (Keyword_TC out)
             \<and> process_row lib df (search_columns df) 2 matched r = Inr (matched @ [out]))"
proof -
  let ?cols = "search_columns df"
  let ?val = "ps @ [0x7D20, 0x98DF, 0x9928] @ ss"
  let ?cn = "snd (row_matches lib ?cols r)"
  have get: "row_get r c (Str []) = Str ?val"
    using assms(2) by (simp add: row_get_def)
  have long: "py_in [0x7D20, 0x98DF, 0x9928] ?val" by (rule py_in_append)
  have "py_in [0x7D20, 0x98DF] (ps @ [0x7D20, 0x98DF] @ ([0x9928] @ ss))"
    by (rule py_in_append)
  then have short: "py_in [0x7D20, 0x98DF] ?val" by simp
  have a: "[0x7D20, 0x98DF] \<in> set ?cn"
    using assms(1) get short by (auto simp: set_cn_matches cn_keywords_def)
  have b: "[0x7D20, 0x98DF, 0x9928] \<in> set ?cn"
    using assms(1) get long by (auto simp: set_cn_matches cn_keywords_def)
  have len: "2 \<le> length ?cn"
    using a b by (rule two_members_length) simp
  then have q: "qualifies lib ?cols 2 r" by (simp add: qualifies_def)
  obtain out where out: "row_record lib df ?cols r = Inr out"
    unfolding row_record_def using build_record_Inr by blast
  then have tc: "Keyword_TC out = ?cn"
    unfolding row_record_def using build_record_keywords by blast
  have "process_row lib df ?cols 2 matched r = Inr (matched @ [out])"
    using q out by (simp add: process_row_eq)
  with a b len q out tc show ?thesis by auto
qed

theorem longer_chinese_keyword_records_both_witness:
  "ascii ''NAME_TC'' \<in> set (search_columns repeated_keyword_frame)
   \<and> repeated_keyword_row (ascii ''NAME_TC'') = Some (Str ([] @ [0x7D20, 0x98DF, 0x9928] @ []))
   \<and> snd (row_matches ascii_lib (search_columns repeated_keyword_frame) repeated_keyword_row)
       = [[0x7D20, 0x98DF], [0x7D20, 0x98DF, 0x9928]]
   \<and> [0x7D20, 0x98DF] \<in> set (snd (row_matches ascii_lib
         (search_columns repeated_keyword_frame) repeated_keyword_row))
   \<and> [0x7D20, 0x98DF, 0x9928] \<in> set (snd (row_matches ascii_lib
         (search_columns repeated_keyword_frame) repeated_keyword_row))
   \<and> qualifies ascii_lib (search_columns repeated_keyword_frame) 2 repeated_keyword_row"
proof -
  let ?cols = "[ascii ''NAME_EN'', ascii ''NAME_TC'', ascii ''ADDRESS_EN'']"
  have cols: "search_columns repeated_keyword_frame = ?cols"
    unfolding repeated_keyword_frame_def by (rule sample_search_columns)
  have c: "ascii ''NAME_TC'' \<in> set (search_columns repeated_keyword_frame)"
    by (simp add: cols)
  have v: "repeated_keyword_row (ascii ''NAME_TC'')
      = Some (Str ([] @ [0x7D20, 0x98DF, 0x9928] @ []))"
    by (simp add: repeated_keyword_row_def sample_row_def ascii_eq_iff)
  have m: "snd (row_matches ascii_lib (search_columns repeated_keyword_frame)
               repeated_keyword_row)
      = [[0x7D20, 0x98DF], [0x7D20, 0x98DF, 0x9928]]"
    by (simp add: cols repeated_keyword_row_def repeated_keyword_matches)
  from longer_chinese_keyword_records_both
    [where c = "ascii ''NAME_TC''" and df = repeated_keyword_frame
       and r = repeated_keyword_row and ps = "[]" and ss = "[]" and lib = ascii_lib
       and matched = "[]", OF c v] c v m
  show ?thesis by blast
qed

section \<open>The result depends on the input file and the threshold alone\<close>

text \<open>
  Claim C8. The pipeline is deterministic: two runs of \<^verbatim>\<open>filter_and_select\<close> with the same
  \<open>min_matches\<close>, on file systems that hold the same input file and agree on whether
  the output path can be written, return the same value. When the input is read and
  parsed and the output can be written, both runs write the same list, which is the
  list of the records of the rows that reach the threshold, in the order of the rows;
  a run that raises leaves the file system as it was; and a second run after the first,
  the output file not being the input file, returns and writes what the first did.
\<close>

theorem filter_and_select_deterministic:
  assumes "files fs1 input_path = files fs2 input_path"
      and "writable fs1 output_path = writable fs2 output_path"
  shows "fst (filter_and_select lib io input_path output_path m fs1)
           = fst (filter_and_select lib io input_path output_path m fs2)
       \<and> (\<forall>content df.
             files fs1 input_path = Some content \<and> read_csv io content = Inr df
             \<and> writable fs1 output_path \<longrightarrow>
             (\<exists>matched.
                map Inr matched
                  = map (row_record lib df (search_columns df))
                      (filter (qualifies lib (search_columns df) m) (rows df))
              \<and> fst (filter_and_select lib io input_path output_path m fs1)
                  = Inr (length (rows df), length matched, output_path)
              \<and> files (snd (filter_and_select lib io input_path output_path m fs1))
                  = (files fs1)(output_path \<mapsto> json_dump io matched)
              \<and> files (snd (filter_and_select lib io input_path output_path m fs2))
                  = (files fs2)(output_path \<mapsto> json_dump io matched)))
       \<and> (\<forall>e. fst (filter_and_select lib io input_path output_path m fs1) = Inl e \<longrightarrow>
             snd (filter_and_select lib io input_path output_path m fs1) = fs1
             \<and> snd (filter_and_select lib io input_path output_path m fs2) = fs2)
       \<and> (input_path \<noteq> output_path \<longrightarrow>
             filter_and_select lib io input_path output_path m
               (snd (filter_and_select lib io input_path output_path m fs1))
             = filter_and_select lib io input_path output_path m fs1)"
proof (intro conjI allI impI)
  show "fst (filter_and_select lib io input_path output_path m fs1)
           = fst (filter_and_select lib io input_path output_path m fs2)"
    using assms by (simp add: filter_and_select_def split: option.splits sum.splits)
next
  fix content df
  assume a: "files fs1 input_path = Some content \<and> read_csv io content = Inr df
             \<and> writable fs1 output_path"
  obtain matched where matched: "select_matched lib df m = Inr matched"
    "map Inr matched = map (row_record lib df (search_columns df))
        (filter (qualifies lib (search_columns df) m) (rows df))"
    using select_matched_eq by blast
  have "fst (filter_and_select lib io input_path output_path m fs1)
          = Inr (length (rows df), length matched, output_path)"
    "files (snd (filter_and_select lib io input_path output_path m fs1))
          = (files fs1)(output_path \<mapsto> json_dump io matched)"
    "files (snd (filter_and_select lib io input_path output_path m fs2))
          = (files fs2)(output_path \<mapsto> json_dump io matched)"
    using a assms matched(1) by (simp_all add: filter_and_select_def)
  with matched(2) show "\<exists>matched.
                map Inr matched
                  = map (row_record lib df (search_columns df))
                      (filter (qualifies lib (search_columns df) m) (rows df))
              \<and> fst (filter_and_select lib io input_path output_path m fs1)
                  = Inr (length (rows df), length matched, output_path)
              \<and> files (snd (filter_and_select lib io input_path output_path m fs1))
                  = (files fs1)(output_path \<mapsto> json_dump io matched)
              \<and> files (snd (filter_and_select lib io input_path output_path m fs2))
                  = (files fs2)(output_path \<mapsto> json_dump io matched)"
    by blast
next
  fix e
  assume "fst (filter_and_select lib io input_path output_path m fs1) = Inl e"
  then show "snd (filter_and_select lib io input_path output_path m fs1) = fs1"
    by (auto simp: filter_and_select_def split: option.splits sum.splits if_splits)
next
  fix e
  assume "fst (filter_and_select lib io input_path output_path m fs1) = Inl e"
  then show "snd (filter_and_select lib io input_path output_path m fs2) = fs2"
    using assms by (auto simp: filter_and_select_def split: option.splits sum.splits if_splits)
next
  assume "input_path \<noteq> output_path"
  then show "filter_and_select lib io input_path output_path m
               (snd (filter_and_select lib io input_path output_path m fs1))
             = filter_and_select lib io input_path output_path m fs1"
    by (auto simp: filter_and_select_def split: option.splits sum.splits)
qed

lemma sample_frame_qualifying:
  "filter (qualifies ascii_lib (search_columns sample_frame) 1) (rows sample_frame)
     = [sample_row ''Green Vegetarian Restaurant'' [] ''1 Main Street'' ''22,302'',
        sample_row [] [0x7D20, 0x98DF, 0x9928] ''2 Vegan Road'' ''N/A'']"
proof -
  have cols: "search_columns sample_frame
      = [ascii ''NAME_EN'', ascii ''NAME_TC'', ascii ''ADDRESS_EN'']"
    unfolding sample_frame_def by (rule sample_search_columns)
  show ?thesis
    unfolding cols
    by (simp add: sample_frame_def qualifies_def sample_row_matches sample_tokens)
qed

theorem filter_and_select_deterministic_witness:
  "files fresh_fs ''in.csv'' = files used_fs ''in.csv''
   \<and> writable fresh_fs ''out.json'' = writable used_fs ''out.json''
   \<and> fst (filter_and_select ascii_lib sample_json_io ''in.csv'' ''out.json'' 1 fresh_fs)
       = Inr (3, 2, ''out.json'')
   \<and> fst (filter_and_select ascii_lib sample_json_io ''in.csv'' ''out.json'' 1 used_fs)
       = Inr (3, 2, ''out.json'')
   \<and> files (snd (filter_and_select ascii_lib sample_json_io ''in.csv'' ''out.json'' 1 fresh_fs))
        ''out.json''
       = files (snd (filter_and_select ascii_lib sample_json_io ''in.csv'' ''out.json'' 1
           used_fs)) ''out.json''"
proof -
  have same_input: "files fresh_fs ''in.csv'' = files used_fs ''in.csv''"
    by (simp add: fresh_fs_def used_fs_def)
  have same_perm: "writable fresh_fs ''out.json'' = writable used_fs ''out.json''"
    by (simp add: fresh_fs_def used_fs_def)
  have input: "files fresh_fs ''in.csv'' = Some (Inl sample_frame)
      \<and> read_csv sample_json_io (Inl sample_frame) = Inr sample_frame
      \<and> writable fresh_fs ''out.json''"
    by (simp add: fresh_fs_def sample_json_io_def)
  note inst = filter_and_select_deterministic
    [OF same_input same_perm, of ascii_lib sample_json_io 1]
  from inst input obtain matched where matched:
    "map Inr matched
       = map (row_record ascii_lib sample_frame (search_columns sample_frame))
           (filter (qualifies ascii_lib (search_columns sample_frame) 1) (rows sample_frame))"
    "fst (filter_and_select ascii_lib sample_json_io ''in.csv'' ''out.json'' 1 fresh_fs)
       = Inr (length (rows sample_frame), length matched, ''out.json'')"
    "files (snd (filter_and_select ascii_lib sample_json_io ''in.csv'' ''out.json'' 1 fresh_fs))
       = (files fresh_fs)(''out.json'' \<mapsto> json_dump sample_json_io matched)"
    "files (snd (filter_and_select ascii_lib sample_json_io ''in.csv'' ''out.json'' 1 used_fs))
       = (files used_fs)(''out.json'' \<mapsto> json_dump sample_json_io matched)"
    by blast
  have "length (map Inr matched :: (exn + real out_record) list) = 2"
    unfolding matched(1) by (simp add: sample_frame_qualifying)
  then have len: "length matched = 2" by simp
  have rows: "length (rows sample_frame) = 3" by (simp add: sample_frame_def)
  from inst have same: "fst (filter_and_select ascii_lib sample_json_io ''in.csv'' ''out.json''
        1 fresh_fs)
      = fst (filter_and_select ascii_lib sample_json_io ''in.csv'' ''out.json'' 1 used_fs)"
    by blast
  from matched(2) len rows
  have first: "fst (filter_and_select ascii_lib sample_json_io ''in.csv'' ''out.json'' 1
        fresh_fs) = Inr (3, 2, ''out.json'')"
    by simp
  with same same_input same_perm matched(3,4) show ?thesis by simp
qed

section \<open>The row named Green Vegetarian Restaurant\<close>

lemma set_foldl_add_search_column:
  "set (foldl (add_search_column df) acc cands)
     = set acc \<union> (set cands \<inter> set (columns df))"
  by (induction cands arbitrary: acc) (auto simp: add_search_column_def)

lemma search_columns_member:
  assumes "c \<in> set search_candidates" and "c \<in> set (columns df)"
  shows "c \<in> set (search_columns df)"
proof -
  let ?found = "foldl (add_search_column df) [] search_candidates"
  have "c \<in> set ?found" using assms by (simp add: set_foldl_add_search_column)
  moreover from this have "?found \<noteq> []" by auto
  ultimately show ?thesis by (simp add: search_columns_def Let_def)
qed

lemma name_candidates_searched: "set (col_map F_Name_EN) \<subseteq> set search_candidates"
  by (simp add: search_candidates_def)

lemma first_seen_singleton:
  assumes "set xs = {a}"
  shows "first_seen xs = [a]"
proof -
  have d: "distinct (first_seen xs)" by (rule distinct_first_seen)
  have s: "set (first_seen xs) = {a}" using assms by (simp add: set_first_seen)
  show ?thesis
  proof (cases "first_seen xs")
    case Nil
    with s show ?thesis by simp
  next
    case (Cons y ys)
    with s d have "y = a" "set ys \<subseteq> {a}" "a \<notin> set ys" by auto
    then have "ys = []" by (cases ys) auto
    with Cons \<open>y = a\<close> show ?thesis by simp
  qed
qed

lemma en_found_green:
  assumes "ascii_conformant lib"
  shows "en_found lib (ascii ''Green Vegetarian Restaurant'') = [ascii ''vegetarian'']"
  using assms by (simp add: en_found_def findall_green_vegetarian lower_vegetarian)

lemma findall_main_street: "findall ascii_lib None (ascii ''1 Main Street'') = []"
  by (simp add: findall_eval ascii_lib_def)

text \<open>
  Claim C6 says that every row whose name field is \<^verbatim>\<open>Green Vegetarian Restaurant\<close> has
  exactly \<open>Keyword_EN = ["vegetarian"]\<close>. The matches of a row are gathered over all its
  searchable columns: the row of \<open>two_keyword_frame\<close> has this name and the address
  \<^verbatim>\<open>2 Vegan Road\<close>, and its record has \<open>Keyword_EN = ["vegetarian", "vegan"]\<close>.
\<close>

theorem green_vegetarian_with_vegan_address:
  "ascii ''NAME_EN'' \<in> set (col_map F_Name_EN)
   \<and> ascii ''NAME_EN'' \<in> set (columns two_keyword_frame)
   \<and> two_keyword_row (ascii ''NAME_EN'') = Some (Str (ascii ''Green Vegetarian Restaurant''))
   \<and> select_matched ascii_lib two_keyword_frame 1
       = Inr [\<lparr>Name_EN = ascii ''Green Vegetarian Restaurant'', Name_TC = [],
               Address_EN = ascii ''2 Vegan Road'', Address_TC = [],
               District_EN = [], District_TC = [], Latitude = None, Longitude = None,
               Keyword_EN = [ascii ''vegetarian'', ascii ''vegan''], Keyword_TC = []\<rparr>]"
proof -
  let ?cols = "[ascii ''NAME_EN'', ascii ''NAME_TC'', ascii ''ADDRESS_EN'']"
  have cols: "search_columns two_keyword_frame = ?cols"
    unfolding two_keyword_frame_def by (rule sample_search_columns)
  have name: "two_keyword_row (ascii ''NAME_EN'')
      = Some (Str (ascii ''Green Vegetarian Restaurant''))"
    by (simp add: two_keyword_row_def sample_row_def)
  have matches: "row_matches ascii_lib ?cols two_keyword_row
      = ([ascii ''vegetarian'', ascii ''vegan''], [])"
    by (simp add: two_keyword_row_def sample_row_matches sample_tokens ascii_eq_iff)
  have built: "build_record ascii_lib two_keyword_frame two_keyword_row
        [ascii ''vegetarian'', ascii ''vegan''] []
      = Inr \<lparr>Name_EN = ascii ''Green Vegetarian Restaurant'', Name_TC = [],
             Address_EN = ascii ''2 Vegan Road'', Address_TC = [],
             District_EN = [], District_TC = [], Latitude = None, Longitude = None,
             Keyword_EN = [ascii ''vegetarian'', ascii ''vegan''], Keyword_TC = []\<rparr>"
    by (simp add: build_record_def two_keyword_frame_def two_keyword_row_def
        sample_columns_def row_get_def sample_row_def ascii_def strip_def ascii_lib_def
        ascii_space_def)
  have "select_matched ascii_lib two_keyword_frame 1
       = Inr [\<lparr>Name_EN = ascii ''Green Vegetarian Restaurant'', Name_TC = [],
               Address_EN = ascii ''2 Vegan Road'', Address_TC = [],
               District_EN = [], District_TC = [], Latitude = None, Longitude = None,
               Keyword_EN = [ascii ''vegetarian'', ascii ''vegan''], Keyword_TC = []\<rparr>]"
    unfolding select_matched_def cols
    by (simp add: two_keyword_frame_def process_row_def matches
        built [unfolded two_keyword_frame_def])
  with name show ?thesis
    by (simp add: two_keyword_frame_def sample_columns_def)
qed

text \<open>
  Claim C6, amended. On the text \<^verbatim>\<open>Green Vegetarian Restaurant\<close> the English matcher
  reports \<open>vegetarian\<close> and nothing else: the alternative \<open>veg\<close> is not reported. For
  every row whose name field holds this string, \<open>vegetarian\<close> is in \<open>Keyword_EN\<close> and
  the row is included in the output when \<open>min_matches = 1\<close>; when no other searchable
  column of the row yields an English match, \<open>Keyword_EN\<close> is exactly
  \<open>["vegetarian"]\<close>. The library is taken to compute on ASCII characters what CPython
  computes.
\<close>

theorem green_vegetarian_scenario:
  assumes "ascii_conformant lib"
      and "c \<in> set (col_map F_Name_EN)"
      and "c \<in> set (columns df)"
      and "r c = Some (Str (ascii ''Green Vegetarian Restaurant''))"
  shows "en_found lib (ascii ''Green Vegetarian Restaurant'') = [ascii ''vegetarian'']
       \<and> ascii ''vegetarian'' \<in> set (fst (row_matches lib (search_columns df) r))
       \<and> ((\<forall>c' \<in> set (search_columns df). c' \<noteq> c \<longrightarrow>
             (\<forall>v. row_get r c' (Str []) = Str v \<longrightarrow> findall lib None v = []))
           \<longrightarrow> fst (row_matches lib (search_columns df) r) = [ascii ''vegetarian''])
       \<and> qualifies lib (search_columns df) 1 r
       \<and> (\<exists>out. row_record lib df (search_columns df) r = Inr out
             \<and> ascii ''vegetarian'' \<in> set (Keyword_EN out)
             \<and> process_row lib df (search_columns df) 1 matched r = Inr (matched @ [out]))
       \<and> (r \<in> set (rows df) \<longrightarrow>
             (\<exists>result out. select_matched lib df 1 = Inr result \<and> out \<in> set result
                \<and> row_record lib df (search_columns df) r = Inr out))"
proof -
  let ?cols = "search_columns df"
  let ?X = "ascii ''Green Vegetarian Restaurant''"
  let ?en = "fst (row_matches lib ?cols r)"
  have found: "en_found lib ?X = [ascii ''vegetarian'']"
    using assms(1) by (rule en_found_green)
  have c: "c \<in> set ?cols"
    using assms(2,3) name_candidates_searched by (auto intro: search_columns_member)
  have get: "row_get r c (Str []) = Str ?X"
    using assms(4) by (simp add: row_get_def)
  have X: "?X \<in> set (scanned_values ?cols r)"
    using c get by (auto simp: set_scanned_values)
  have en: "?en = first_seen (en_stream lib ?cols r)"
    by (simp add: row_matches_first_seen)
  have member: "ascii ''vegetarian'' \<in> set ?en"
    unfolding en set_first_seen en_stream_def using X found by force
  then have "?en \<noteq> []" by auto
  then have "1 \<le> length ?en" by (cases ?en) simp_all
  then have q: "qualifies lib ?cols 1 r" by (simp add: qualifies_def)
  have exact: "?en = [ascii ''vegetarian'']"
    if others: "\<forall>c' \<in> set ?cols. c' \<noteq> c \<longrightarrow>
        (\<forall>v. row_get r c' (Str []) = Str v \<longrightarrow> findall lib None v = [])"
  proof -
    have "set (en_found lib v) \<subseteq> {ascii ''vegetarian''}"
      if "v \<in> set (scanned_values ?cols r)" for v
    proof -
      from that obtain c' where c': "c' \<in> set ?cols" "row_get r c' (Str []) = Str v"
        by (auto simp: set_scanned_values)
      show ?thesis
      proof (cases "c' = c")
        case True
        with c' get have "v = ?X" by simp
        with found show ?thesis by simp
      next
        case False
        with others c' have "findall lib None v = []" by blast
        then show ?thesis by (simp add: en_found_def)
      qed
    qed
    then have "set (en_stream lib ?cols r) \<subseteq> {ascii ''vegetarian''}"
      by (auto simp: en_stream_def)
    moreover have "ascii ''vegetarian'' \<in> set (en_stream lib ?cols r)"
      using member by (simp add: en set_first_seen)
    ultimately have "set (en_stream lib ?cols r) = {ascii ''vegetarian''}" by blast
    then show ?thesis unfolding en by (rule first_seen_singleton)
  qed
  obtain out where out: "row_record lib df ?cols r = Inr out"
    unfolding row_record_def using build_record_Inr by blast
  then have kw: "Keyword_EN out = ?en"
    unfolding row_record_def using build_record_keywords by blast
  have appended: "process_row lib df ?cols 1 matched r = Inr (matched @ [out])"
    using q out by (simp add: process_row_eq)
  have included: "\<exists>result out. select_matched lib df 1 = Inr result \<and> out \<in> set result
      \<and> row_record lib df ?cols r = Inr out" if "r \<in> set (rows df)"
  proof -
    obtain result where result: "select_matched lib df 1 = Inr result"
      "map Inr result = map (row_record lib df ?cols) (filter (qualifies lib ?cols 1) (rows df))"
      using select_matched_eq by blast
    have "row_record lib df ?cols r \<in> set (map Inr result)"
      unfolding result(2) using that q by simp
    with out have "out \<in> set result" by auto
    with result(1) out show ?thesis by blast
  qed
  from found member exact q out kw appended included show ?thesis by auto
qed

theorem green_vegetarian_scenario_witness:
  "ascii_conformant ascii_lib
   \<and> ascii ''NAME_EN'' \<in> set (col_map F_Name_EN)
   \<and> ascii ''NAME_EN'' \<in> set (columns sample_frame)
   \<and> green_row (ascii ''NAME_EN'') = Some (Str (ascii ''Green Vegetarian Restaurant''))
   \<and> green_row \<in> set (rows sample_frame)
   \<and> fst (row_matches ascii_lib (search_columns sample_frame) green_row)
       = [ascii ''vegetarian'']
   \<and> qualifies ascii_lib (search_columns sample_frame) 1 green_row
   \<and> (\<exists>result out. select_matched ascii_lib sample_frame 1 = Inr result \<and> out \<in> set result
         \<and> row_record ascii_lib sample_frame (search_columns sample_frame) green_row = Inr out)"
proof -
  let ?cols = "[ascii ''NAME_EN'', ascii ''NAME_TC'', ascii ''ADDRESS_EN'']"
  have cols: "search_columns sample_frame = ?cols"
    unfolding sample_frame_def by (rule sample_search_columns)
  have h1: "ascii_conformant ascii_lib" by (rule ascii_conformant_ascii_lib)
  have h2: "ascii ''NAME_EN'' \<in> set (col_map F_Name_EN)" by simp
  have h3: "ascii ''NAME_EN'' \<in> set (columns sample_frame)"
    by (simp add: sample_frame_def sample_columns_def)
  have h4: "green_row (ascii ''NAME_EN'') = Some (Str (ascii ''Green Vegetarian Restaurant''))"
    by (simp add: green_row_def sample_row_def)
  have h5: "green_row \<in> set (rows sample_frame)"
    by (simp add: green_row_def sample_frame_def)
  have others: "\<forall>c' \<in> set (search_columns sample_frame). c' \<noteq> ascii ''NAME_EN'' \<longrightarrow>
      (\<forall>v. row_get green_row c' (Str []) = Str v \<longrightarrow> findall ascii_lib None v = [])"
    unfolding cols
    by (auto simp: green_row_def row_get_def sample_row_def ascii_eq_iff findall_main_street)
  from green_vegetarian_scenario
    [where lib = ascii_lib and c = "ascii ''NAME_EN''" and df = sample_frame
       and r = green_row and matched = "[]", OF h1 h2 h3 h4] others h1 h2 h3 h4 h5
  show ?thesis by blast
qed

end
